theory Spec2Isabelle
  imports Complex_Main
begin

section \<open>Python values and failures\<close>

text \<open>
  The experiment driver is a Python class. A raised exception is the left summand of a
  sum; \<open>ExternalError\<close> stands for any exception raised inside the quantum library
  (transpilation, scheduling, sampling), whose code is not part of the repository.
\<close>

datatype error = IndexError | KeyError | TypeError | ZeroDivisionError | ExternalError

definition bind :: "error + 'a \<Rightarrow> ('a \<Rightarrow> error + 'b) \<Rightarrow> error + 'b" where
  "bind m f = (case m of Inl e \<Rightarrow> Inl e | Inr x \<Rightarrow> f x)"

text \<open>
  A Python \<open>dict\<close> keeps its keys in insertion order and holds each key once: an
  association list whose keys are distinct.
\<close>

type_synonym ('k, 'v) dict = "('k \<times> 'v) list"

definition dict_ok :: "('k, 'v) dict \<Rightarrow> bool" where
  "dict_ok d = distinct (map fst d)"

definition dict_keys :: "('k, 'v) dict \<Rightarrow> 'k list" where
  "dict_keys d = map fst d"

definition dict_contains :: "'k \<Rightarrow> ('k, 'v) dict \<Rightarrow> bool" where
  "dict_contains k d = (map_of d k \<noteq> None)"

definition dict_getitem :: "('k, 'v) dict \<Rightarrow> 'k \<Rightarrow> error + 'v" where
  "dict_getitem d k = (case map_of d k of None \<Rightarrow> Inl KeyError | Some v \<Rightarrow> Inr v)"

fun dict_setitem :: "'k \<Rightarrow> 'v \<Rightarrow> ('k, 'v) dict \<Rightarrow> ('k, 'v) dict" where
  "dict_setitem k v [] = [(k, v)]"
| "dict_setitem k v ((k', v') # d) =
     (if k' = k then (k, v) # d else (k', v') # dict_setitem k v d)"

definition dict_values :: "('k, 'v) dict \<Rightarrow> 'v list" where
  "dict_values d = map snd d"

section \<open>Scheduled circuits and the duration-rounding pass\<close>

text \<open>
  A circuit that came back from the transpiler is a list of scheduled instructions. The
  class reads and writes one attribute of them, \<open>duration\<close>; it is an integer number
  of device time steps, or \<open>None\<close> when the library left it unset.
\<close>

record scheduled_instruction =
  op_name :: string
  op_qubits :: "int list"
  duration :: "int option"

type_synonym scheduled_circuit = "scheduled_instruction list"

text \<open>
  \<^verbatim>\<open>if item[0].duration % 8:
      item[0].duration = ((item[0].duration // 8) + 1) * 8\<close>
  Python's \<open>%\<close> and \<open>//\<close> are the floor operations, as \<open>mod\<close> and \<open>div\<close> on
  \<open>int\<close> are.
\<close>

definition round_duration :: "int \<Rightarrow> int" where
  "round_duration d = (if d mod 8 \<noteq> 0 then ((d div 8) + 1) * 8 else d)"

definition round_item :: "scheduled_instruction \<Rightarrow> error + scheduled_instruction" where
  "round_item item =
     (case duration item of
        None \<Rightarrow> Inl TypeError
      | Some d \<Rightarrow> Inr (item\<lparr>duration := Some (round_duration d)\<rparr>))"

fun round_durations :: "scheduled_circuit \<Rightarrow> error + scheduled_circuit" where
  "round_durations [] = Inr []"
| "round_durations (item # items) =
     bind (round_item item) (\<lambda>item'.
     bind (round_durations items) (\<lambda>items'. Inr (item' # items')))"

section \<open>The attack sweep parameter\<close>

text \<open>
  The four attack methods start with \<open>slots = 8\<close> and, in iteration \<open>i\<close> of
  \<open>for i in range(45)\<close>, run the same chain before the attack rounds are built:
  \<^verbatim>\<open>if i < 20 and i % 5 == 0: slots = slots / 2
  elif i >= 20 and i < 25:  slots = 0.75
  elif i >= 25 and i < 30:  slots = 0.5
  elif i >= 30 and i < 35:  slots = 0.05
  elif i >= 35 and i < 40:  slots = 0.025\<close>
  Halving the floats 8, 4, 2, 1 is exact, so real arithmetic computes the same values.
\<close>

definition update_slots :: "nat \<Rightarrow> real \<Rightarrow> real" where
  "update_slots i slots =
     (if i < 20 \<and> i mod 5 = 0 then slots / 2
      else if i \<ge> 20 \<and> i < 25 then 0.75
      else if i \<ge> 25 \<and> i < 30 then 0.5
      else if i \<ge> 30 \<and> i < 35 then 0.05
      else if i \<ge> 35 \<and> i < 40 then 0.025
      else slots)"

text \<open>
  The variable \<open>slots\<close> is threaded through the loop. \<open>slots_before i\<close> is its value
  when iteration \<open>i\<close> starts and \<open>slots_at i\<close> its value once the chain of iteration
  \<open>i\<close> has run, which is the value the delays of that iteration are built with.
\<close>

fun slots_before :: "nat \<Rightarrow> real" where
  "slots_before 0 = 8"
| "slots_before (Suc i) = update_slots i (slots_before i)"

definition slots_at :: "nat \<Rightarrow> real" where
  "slots_at i = update_slots i (slots_before i)"

text \<open>
  The schedule in the words of the specification, to be compared with \<open>slots_at\<close>:
  4 on [0,5), 2 on [5,10), 1 on [10,15), 0.5 on [15,20), then 0.75 on [20,25), 0.5 on
  [25,30), 0.05 on [30,35), 0.025 on [35,40) and 0.025 from 40 on.
\<close>

definition spec_schedule :: "nat \<Rightarrow> real" where
  "spec_schedule i =
     (if i < 5 then 4 else if i < 10 then 2 else if i < 15 then 1 else if i < 20 then 0.5
      else if i < 25 then 0.75 else if i < 30 then 0.5 else if i < 35 then 0.05 else 0.025)"

section \<open>Circuits under construction\<close>

text \<open>
  Before transpilation a circuit is a register size for the qubits, one for the classical
  bits, and the list of instructions appended so far. \<open>Instruction\<close> is a sub-circuit
  turned into one instruction (\<open>qc.to_instruction()\<close>); \<open>Delay d\<close> is
  \<open>qc.delay(d, unit="us", ...)\<close>.
\<close>

datatype gate = H | X | Y | CCZ | CX | Delay real | Measure
  | Instruction "(gate \<times> int list) list"

record circuit_instruction =
  operation :: gate
  qubits :: "int list"
  clbits :: "int list"

record quantum_circuit =
  qreg_size :: int
  creg_size :: int
  data :: "circuit_instruction list"

definition gate_on :: "gate \<Rightarrow> int list \<Rightarrow> circuit_instruction" where
  "gate_on g qs = \<lparr>operation = g, qubits = qs, clbits = []\<rparr>"

text \<open>
  \<open>createGroverOperator\<close>: a doubly controlled Z, then H, X on the three qubits, the
  controlled Z again, then X, H; returned as one instruction.
\<close>

definition createGroverOperator :: gate where
  "createGroverOperator = Instruction
     [(CCZ, [0, 1, 2]),
      (H, [0]), (H, [1]), (H, [2]),
      (X, [0]), (X, [1]), (X, [2]),
      (CCZ, [0, 1, 2]),
      (X, [0]), (X, [1]), (X, [2]),
      (H, [0]), (H, [1]), (H, [2])]"

text \<open>
  \<open>QuantumRegister(n)\<close> rejects a negative \<open>n\<close>. \<open>q[k]\<close> indexes the register's list
  of bits: a negative index counts from the end, an index outside the list raises
  \<open>IndexError\<close>. A qubit is named by its position in the register.
\<close>

definition new_register :: "int \<Rightarrow> error + int" where
  "new_register sz = (if sz < 0 then Inl ExternalError else Inr sz)"

definition reg_getitem :: "int \<Rightarrow> int \<Rightarrow> error + int" where
  "reg_getitem sz k =
     (let j = (if k < 0 then sz + k else k)
      in if 0 \<le> j \<and> j < sz then Inr j else Inl IndexError)"

text \<open>\<open>range(start, stop, step)\<close> for a positive step.\<close>

definition py_range :: "int \<Rightarrow> int \<Rightarrow> int \<Rightarrow> int list" where
  "py_range start stop step = filter (\<lambda>k. (k - start) mod step = 0) [start..stop - 1]"

text \<open>\<open>for k in ks: qc.g(q[k])\<close> for a one-qubit gate \<open>g\<close>.\<close>

fun single_qubit_gates :: "gate \<Rightarrow> int \<Rightarrow> int list \<Rightarrow> error + circuit_instruction list" where
  "single_qubit_gates g sz [] = Inr []"
| "single_qubit_gates g sz (k # ks) =
     bind (reg_getitem sz k) (\<lambda>q.
     bind (single_qubit_gates g sz ks) (\<lambda>rest. Inr (gate_on g [q] # rest)))"

text \<open>
  The part every builder method starts with: the preparation of the redundancy qubits
  chosen by \<open>initialState\<close>, H on the qubits 0, 1, 2 and the Grover operator appended
  twice on them.
\<close>

definition prepare_initial_state :: "int \<Rightarrow> int \<Rightarrow> int \<Rightarrow> error + circuit_instruction list" where
  "prepare_initial_state initialState numQubits sz =
     (if initialState = 1 then single_qubit_gates X sz (py_range 3 numQubits 2)
      else if initialState = 2 then single_qubit_gates H sz (py_range 3 numQubits 2)
      else Inr [])"

definition append_grover :: "gate \<Rightarrow> int \<Rightarrow> error + circuit_instruction" where
  "append_grover grover sz =
     bind (reg_getitem sz 0) (\<lambda>q0.
     bind (reg_getitem sz 1) (\<lambda>q1.
     bind (reg_getitem sz 2) (\<lambda>q2. Inr (gate_on grover [q0, q1, q2]))))"

definition circuit_prefix :: "int \<Rightarrow> int \<Rightarrow> gate \<Rightarrow> int \<Rightarrow> error + circuit_instruction list" where
  "circuit_prefix numQubits initialState grover sz =
     bind (prepare_initial_state initialState numQubits sz) (\<lambda>prep.
     bind (single_qubit_gates H sz [0, 1, 2]) (\<lambda>hs.
     bind (append_grover grover sz) (\<lambda>g1.
     bind (append_grover grover sz) (\<lambda>g2. Inr (prep @ hs @ [g1, g2])))))"

text \<open>\<open>qc.measure(q, c)\<close>: qubit \<open>j\<close> of the register is measured into classical bit \<open>j\<close>.\<close>

definition measure_all :: "int \<Rightarrow> circuit_instruction list" where
  "measure_all sz = map (\<lambda>j. \<lparr>operation = Measure, qubits = [j], clbits = [j]\<rparr>) [0..sz - 1]"

definition build_no_attack :: "int \<Rightarrow> int \<Rightarrow> gate \<Rightarrow> error + quantum_circuit" where
  "build_no_attack numQubits initialState grover =
     bind (new_register numQubits) (\<lambda>sz.
     bind (circuit_prefix numQubits initialState grover sz) (\<lambda>pre.
       Inr \<lparr>qreg_size = sz, creg_size = sz, data = pre @ measure_all sz\<rparr>))"

text \<open>
  One attack round without spacing:
  \<^verbatim>\<open>for k in range(3,self.numQubits,2):
      qc.cx(q[k],q[k+1])
      qc.delay(slots,unit="us",qarg=q[k])\<close>
  and with spacing:
  \<^verbatim>\<open>for k in range(3,self.numQubits,3):
      qc.cx(q[k+1],q[k+2])
      qc.delay(slots,unit="us",qarg=q[k+1])\<close>
\<close>

fun attack_round :: "int \<Rightarrow> real \<Rightarrow> int list \<Rightarrow> error + circuit_instruction list" where
  "attack_round sz slots [] = Inr []"
| "attack_round sz slots (k # ks) =
     bind (reg_getitem sz k) (\<lambda>a.
     bind (reg_getitem sz (k + 1)) (\<lambda>b.
     bind (reg_getitem sz k) (\<lambda>d.
     bind (attack_round sz slots ks) (\<lambda>rest.
       Inr (gate_on CX [a, b] # gate_on (Delay slots) [d] # rest)))))"

fun attack_round_spacing :: "int \<Rightarrow> real \<Rightarrow> int list \<Rightarrow> error + circuit_instruction list" where
  "attack_round_spacing sz slots [] = Inr []"
| "attack_round_spacing sz slots (k # ks) =
     bind (reg_getitem sz (k + 1)) (\<lambda>a.
     bind (reg_getitem sz (k + 2)) (\<lambda>b.
     bind (reg_getitem sz (k + 1)) (\<lambda>d.
     bind (attack_round_spacing sz slots ks) (\<lambda>rest.
       Inr (gate_on CX [a, b] # gate_on (Delay slots) [d] # rest)))))"

text \<open>\<open>for j in range(i):\<close> around one round.\<close>

fun attack_rounds :: "nat \<Rightarrow> (error + circuit_instruction list) \<Rightarrow> error + circuit_instruction list" where
  "attack_rounds 0 one_round = Inr []"
| "attack_rounds (Suc j) one_round =
     bind one_round (\<lambda>r. bind (attack_rounds j one_round) (\<lambda>rest. Inr (r @ rest)))"

text \<open>
  The circuit of iteration \<open>i\<close> of an attack method, up to the call of the transpiler,
  together with the new value of \<open>slots\<close>. The four methods build it with the same
  statements; those with spacing use a register of
  \<open>numQubits + (numQubits - 3)//2\<close> bits and the second form of the round.
\<close>

definition build_attack ::
  "bool \<Rightarrow> int \<Rightarrow> int \<Rightarrow> gate \<Rightarrow> nat \<Rightarrow> real \<Rightarrow> error + (real \<times> quantum_circuit)" where
  "build_attack spacing numQubits initialState grover i slots =
     bind (new_register (if spacing then numQubits + (numQubits - 3) div 2 else numQubits)) (\<lambda>sz.
     bind (circuit_prefix numQubits initialState grover sz) (\<lambda>pre.
     let slots' = update_slots i slots in
     bind (attack_rounds i
             (if spacing then attack_round_spacing sz slots' (py_range 3 numQubits 3)
              else attack_round sz slots' (py_range 3 numQubits 2))) (\<lambda>attack.
       Inr (slots', \<lparr>qreg_size = sz, creg_size = sz,
                     data = pre @ attack @ measure_all sz\<rparr>))))"

section \<open>Reading a built circuit\<close>

text \<open>
  The attack operations of a circuit are its controlled-X and delay instructions, in the
  order they were appended.
\<close>

fun is_CX :: "gate \<Rightarrow> bool" where
  "is_CX CX = True"
| "is_CX g = False"

fun is_Delay :: "gate \<Rightarrow> bool" where
  "is_Delay (Delay d) = True"
| "is_Delay g = False"

definition attack_ops :: "quantum_circuit \<Rightarrow> circuit_instruction list" where
  "attack_ops qc = filter (\<lambda>ins. is_CX (operation ins) \<or> is_Delay (operation ins)) (data qc)"

definition count_CX :: "quantum_circuit \<Rightarrow> nat" where
  "count_CX qc = length (filter (\<lambda>ins. is_CX (operation ins)) (data qc))"

definition count_Delay :: "quantum_circuit \<Rightarrow> nat" where
  "count_Delay qc = length (filter (\<lambda>ins. is_Delay (operation ins)) (data qc))"

text \<open>
  The attack pattern in the words of the specification, to be compared with what
  \<open>build_attack\<close> appends: without spacing, for each \<open>k\<close> in 3, 5, 7, ... below
  \<open>numQubits\<close>, a controlled-X from qubit \<open>k\<close> to qubit \<open>k + 1\<close> and then a delay on
  qubit \<open>k\<close>; with spacing, for each \<open>k\<close> in 3, 6, 9, ... below \<open>numQubits\<close>, a
  controlled-X from qubit \<open>k + 1\<close> to qubit \<open>k + 2\<close> and then a delay on qubit \<open>k + 1\<close>.
\<close>

definition spec_pairs :: "bool \<Rightarrow> int \<Rightarrow> int list" where
  "spec_pairs spacing numQubits = py_range 3 numQubits (if spacing then 3 else 2)"

definition spec_attack_pattern :: "bool \<Rightarrow> int \<Rightarrow> real \<Rightarrow> circuit_instruction list" where
  "spec_attack_pattern spacing numQubits d =
     concat (map (\<lambda>k. if spacing
                       then [gate_on CX [k + 1, k + 2], gate_on (Delay d) [k + 1]]
                       else [gate_on CX [k, k + 1], gate_on (Delay d) [k]])
                 (spec_pairs spacing numQubits))"

section \<open>The backend and the quantum library\<close>

text \<open>
  The backend's target maps an instruction name to the properties that instruction has on
  each tuple of qubits. \<open>target.instructions\<close> lists the pairs of an instruction and a
  qubit tuple.
\<close>

record instruction_properties =
  ip_duration :: "real option"
  ip_error :: "real option"

type_synonym target = "(string, (int list, instruction_properties) dict) dict"

record ibm_backend =
  target :: target
  target_num_qubits :: int
  basis_gates :: "string list"

definition target_instructions :: "target \<Rightarrow> (string \<times> int list) list" where
  "target_instructions t = concat (map (\<lambda>(name, props). map (\<lambda>(qargs, p). (name, qargs)) props) t)"

fun y_gate_properties ::
  "target \<Rightarrow> int list \<Rightarrow> (int list, instruction_properties) dict
     \<Rightarrow> error + (int list, instruction_properties) dict" where
  "y_gate_properties t [] acc = Inr acc"
| "y_gate_properties t (qubit # rest) acc =
     bind (dict_getitem t ''x'') (\<lambda>x_props.
     bind (dict_getitem x_props [qubit]) (\<lambda>p.
       y_gate_properties t rest
         (dict_setitem [qubit] \<lparr>ip_duration = ip_duration p, ip_error = ip_error p\<rparr> acc)))"

definition add_instruction ::
  "string \<Rightarrow> (int list, instruction_properties) dict \<Rightarrow> target \<Rightarrow> error + target" where
  "add_instruction name props t =
     (if dict_contains name t then Inl ExternalError else Inr (t @ [(name, props)]))"

definition addYGateToTargetBackend :: "ibm_backend \<Rightarrow> error + ibm_backend" where
  "addYGateToTargetBackend b =
     (let yPresent = (\<exists>instruction \<in> set (target_instructions (target b)). fst instruction = ''y'')
      in if \<not> yPresent then
           bind (y_gate_properties (target b) (py_range 0 (target_num_qubits b) 1) []) (\<lambda>props.
           bind (add_instruction ''y'' props (target b)) (\<lambda>t. Inr (b\<lparr>target := t\<rparr>)))
         else Inr b)"

text \<open>
  The library calls whose code is not in the repository are parameters: the transpiler,
  the pass manager that schedules and pads with the decoupling sequence, the basis
  translator, the sampler (its result read through \<open>join_data().get_counts()\<close>, one
  mapping from bitstrings to counts per submitted circuit list) and the Hellinger
  fidelity of two count mappings. Each may raise.
\<close>

type_synonym counts = "(string, int) dict"

record qiskit =
  transpile :: "ibm_backend \<Rightarrow> quantum_circuit \<Rightarrow> int list \<Rightarrow> error + scheduled_circuit"
  pad_dd :: "ibm_backend \<Rightarrow> gate list \<Rightarrow> int list \<Rightarrow> scheduled_circuit \<Rightarrow> error + scheduled_circuit"
  basis_translator :: "ibm_backend \<Rightarrow> scheduled_circuit \<Rightarrow> error + scheduled_circuit"
  sampler_run :: "ibm_backend \<Rightarrow> scheduled_circuit list list \<Rightarrow> error + counts list"
  hellinger_fidelity :: "counts \<Rightarrow> counts \<Rightarrow> error + real"

section \<open>The experiment\<close>

record Experiment =
  numQubits :: int
  initialLayout :: "int list"
  initialLayoutWithBuffer :: "int list"
  initialState :: int
  ddSequenceType :: int
  groverOperator :: gate
  backend :: ibm_backend
  circuits :: "scheduled_circuit list"
  result :: "counts list"
  fidelities :: "real list"

text \<open>\<open>__init__\<close>: a zero qubit count and an empty layout are replaced by defaults.\<close>

definition init ::
  "int \<Rightarrow> int list \<Rightarrow> int list \<Rightarrow> ibm_backend \<Rightarrow> int \<Rightarrow> int \<Rightarrow> error + Experiment" where
  "init numQubits' initialLayout' initialLayoutWithBuffer' backend' initialState' ddSequenceType' =
     bind (addYGateToTargetBackend backend') (\<lambda>b.
       Inr \<lparr>numQubits = (if numQubits' \<noteq> 0 then numQubits' else 9),
            initialLayout =
              (if length initialLayout' \<noteq> 0 then initialLayout' else [4,3,5,15,22,2,1,6,7]),
            initialLayoutWithBuffer =
              (if length initialLayoutWithBuffer' \<noteq> 0 then initialLayoutWithBuffer'
               else [4,3,5,22,23,1,0,7,8]),
            initialState = initialState',
            ddSequenceType = ddSequenceType',
            groverOperator = createGroverOperator,
            backend = b,
            circuits = [], result = [], fidelities = []\<rparr>)"

text \<open>
  A method returns the exception it raised, if any, and the object as the call left it:
  what was appended before an exception stays appended.
\<close>

definition append_circuit :: "Experiment \<Rightarrow> error + scheduled_circuit \<Rightarrow> error option \<times> Experiment" where
  "append_circuit self c =
     (case c of Inl e \<Rightarrow> (Some e, self)
      | Inr tr \<Rightarrow> (None, self\<lparr>circuits := circuits self @ [tr]\<rparr>))"

text \<open>
  The decoupling steps shared by the three methods that pad: choose the sequence from
  \<open>ddSequenceType\<close>, run the pass manager on the first three entries of the layout,
  round the durations, translate to the basis gates.
\<close>

definition apply_dd :: "qiskit \<Rightarrow> Experiment \<Rightarrow> int list \<Rightarrow> scheduled_circuit \<Rightarrow> error + scheduled_circuit" where
  "apply_dd env self layout tr_circuit =
     (let dd_sequence = (if ddSequenceType self = 1 then [X, Y, X, Y] else [X, X]) in
      bind (pad_dd env (backend self) dd_sequence (take 3 layout) tr_circuit) (\<lambda>circ_dd.
      bind (round_durations circ_dd) (\<lambda>rounded.
        basis_translator env (backend self) rounded)))"

definition addNoAttackCircuit :: "qiskit \<Rightarrow> Experiment \<Rightarrow> error option \<times> Experiment" where
  "addNoAttackCircuit env self =
     append_circuit self
       (bind (build_no_attack (numQubits self) (initialState self) (groverOperator self)) (\<lambda>qc.
          transpile env (backend self) qc (initialLayout self)))"

definition addNoAttackPlusDDCircuit :: "qiskit \<Rightarrow> Experiment \<Rightarrow> error option \<times> Experiment" where
  "addNoAttackPlusDDCircuit env self =
     append_circuit self
       (bind (build_no_attack (numQubits self) (initialState self) (groverOperator self)) (\<lambda>qc.
        bind (transpile env (backend self) qc (initialLayout self)) (\<lambda>tr_circuit.
          apply_dd env self (initialLayout self) tr_circuit)))"

text \<open>
  One iteration of \<open>for i in range(45)\<close> in an attack method, up to the append. The
  methods with spacing transpile (and pad) on \<open>initialLayoutWithBuffer\<close>, the others on
  \<open>initialLayout\<close>; the methods with decoupling run the decoupling steps.
\<close>

definition attack_iteration ::
  "qiskit \<Rightarrow> Experiment \<Rightarrow> bool \<Rightarrow> bool \<Rightarrow> nat \<Rightarrow> real \<Rightarrow> error + (real \<times> scheduled_circuit)" where
  "attack_iteration env self spacing dd i slots =
     bind (build_attack spacing (numQubits self) (initialState self) (groverOperator self) i slots)
       (\<lambda>(slots', qc).
     let layout = (if spacing then initialLayoutWithBuffer self else initialLayout self) in
     bind (transpile env (backend self) qc layout) (\<lambda>tr_circuit.
     bind (if dd then apply_dd env self layout tr_circuit else Inr tr_circuit) (\<lambda>c.
       Inr (slots', c))))"

fun attack_loop ::
  "qiskit \<Rightarrow> bool \<Rightarrow> bool \<Rightarrow> nat list \<Rightarrow> real \<Rightarrow> Experiment \<Rightarrow> error option \<times> Experiment" where
  "attack_loop env spacing dd [] slots self = (None, self)"
| "attack_loop env spacing dd (i # rest) slots self =
     (case attack_iteration env self spacing dd i slots of
        Inl e \<Rightarrow> (Some e, self)
      | Inr (slots', c) \<Rightarrow>
          attack_loop env spacing dd rest slots' (self\<lparr>circuits := circuits self @ [c]\<rparr>))"

definition addAttackWithoutMitigationCircuits :: "qiskit \<Rightarrow> Experiment \<Rightarrow> error option \<times> Experiment" where
  "addAttackWithoutMitigationCircuits env self = attack_loop env False False [0..<45] 8 self"

definition addAttackWithDDCircuits :: "qiskit \<Rightarrow> Experiment \<Rightarrow> error option \<times> Experiment" where
  "addAttackWithDDCircuits env self = attack_loop env False True [0..<45] 8 self"

definition addAttackWithSpacingCircuits :: "qiskit \<Rightarrow> Experiment \<Rightarrow> error option \<times> Experiment" where
  "addAttackWithSpacingCircuits env self = attack_loop env True False [0..<45] 8 self"

definition addAttackWithDDAndSpacingCircuits :: "qiskit \<Rightarrow> Experiment \<Rightarrow> error option \<times> Experiment" where
  "addAttackWithDDAndSpacingCircuits env self = attack_loop env True True [0..<45] 8 self"

text \<open>
  \<open>runAllCircuits\<close>: every circuit is wrapped in a list of its own, the batch is run, and
  only then \<open>self.result\<close> is emptied and filled with \<open>jobResult[i]\<close> for
  \<open>i in range(len(self.circuits))\<close>.
\<close>

fun collect_counts :: "counts list \<Rightarrow> nat list \<Rightarrow> Experiment \<Rightarrow> error option \<times> Experiment" where
  "collect_counts jobResult [] self = (None, self)"
| "collect_counts jobResult (i # rest) self =
     (if i < length jobResult
      then collect_counts jobResult rest (self\<lparr>result := result self @ [jobResult ! i]\<rparr>)
      else (Some IndexError, self))"

definition runAllCircuits :: "qiskit \<Rightarrow> Experiment \<Rightarrow> error option \<times> Experiment" where
  "runAllCircuits env self =
     (let circuitarray = map (\<lambda>circuit. [circuit]) (circuits self) in
      case sampler_run env (backend self) circuitarray of
        Inl e \<Rightarrow> (Some e, self)
      | Inr jobResult \<Rightarrow>
          collect_counts jobResult [0..<length (circuits self)] (self\<lparr>result := []\<rparr>))"

text \<open>\<open>print\<close> is modelled by returning the lines printed next to the value returned.\<close>

definition getResult :: "Experiment \<Rightarrow> string list \<times> counts list" where
  "getResult self =
     (if length (result self) = 0 then [''No results yet, returning an empty array.''] else [],
      result self)"

text \<open>
  \<open>find_fidelity\<close>: the counts are summed by the last three characters of their keys
  (\<open>key[-3:]\<close> is the whole key when it has fewer than three characters), and the
  result is compared with the fixed ideal distribution.
\<close>

definition idealState :: counts where
  "idealState = [(''111'', 968), (''101'', 8), (''011'', 8), (''110'', 8),
                 (''100'', 8), (''010'', 8), (''001'', 8), (''000'', 8)]"

definition last3 :: "string \<Rightarrow> string" where
  "last3 key = drop (length key - 3) key"

definition reduce_step :: "counts \<Rightarrow> counts \<Rightarrow> string \<Rightarrow> error + counts" where
  "reduce_step counts finalState key =
     (let key_prefix = last3 key;
          finalState' = (if \<not> dict_contains key_prefix finalState
                         then dict_setitem key_prefix 0 finalState else finalState)
      in bind (dict_getitem finalState' key_prefix) (\<lambda>old.
         bind (dict_getitem counts key) (\<lambda>c.
           Inr (dict_setitem key_prefix (old + c) finalState'))))"

fun reduce_loop :: "counts \<Rightarrow> string list \<Rightarrow> counts \<Rightarrow> error + counts" where
  "reduce_loop counts [] finalState = Inr finalState"
| "reduce_loop counts (key # keys) finalState =
     bind (reduce_step counts finalState key) (reduce_loop counts keys)"

definition reduce_counts :: "counts \<Rightarrow> error + counts" where
  "reduce_counts counts = reduce_loop counts (dict_keys counts) []"

definition find_fidelity :: "qiskit \<Rightarrow> counts \<Rightarrow> error + real" where
  "find_fidelity env counts =
     bind (reduce_counts counts) (\<lambda>finalState. hellinger_fidelity env idealState finalState)"

fun score_results :: "qiskit \<Rightarrow> counts list \<Rightarrow> Experiment \<Rightarrow> error option \<times> Experiment" where
  "score_results env [] self = (None, self)"
| "score_results env (count # rest) self =
     (case find_fidelity env count of
        Inl e \<Rightarrow> (Some e, self)
      | Inr f \<Rightarrow> score_results env rest (self\<lparr>fidelities := fidelities self @ [f]\<rparr>))"

definition calculateFidelityOfDataQubits :: "qiskit \<Rightarrow> Experiment \<Rightarrow> error option \<times> Experiment" where
  "calculateFidelityOfDataQubits env self = score_results env (result self) (self\<lparr>fidelities := []\<rparr>)"

definition getFidelities :: "Experiment \<Rightarrow> string list \<times> real list" where
  "getFidelities self =
     (if length (fidelities self) = 0
      then [''Fidelities are not yet calculated. Returning an empty array''] else [],
      fidelities self)"

section \<open>Sequences of calls\<close>

text \<open>
  The class is driven by a caller. The six circuit-adding methods can be called in any
  order and number; a caller may catch the exception of one call and go on.
\<close>

datatype builder = NoAttack | NoAttackPlusDD | AttackWithoutMitigation | AttackWithDD
  | AttackWithSpacing | AttackWithDDAndSpacing

fun call_builder :: "qiskit \<Rightarrow> builder \<Rightarrow> Experiment \<Rightarrow> error option \<times> Experiment" where
  "call_builder env NoAttack = addNoAttackCircuit env"
| "call_builder env NoAttackPlusDD = addNoAttackPlusDDCircuit env"
| "call_builder env AttackWithoutMitigation = addAttackWithoutMitigationCircuits env"
| "call_builder env AttackWithDD = addAttackWithDDCircuits env"
| "call_builder env AttackWithSpacing = addAttackWithSpacingCircuits env"
| "call_builder env AttackWithDDAndSpacing = addAttackWithDDAndSpacingCircuits env"

datatype call = Build builder | RunAll | CalculateFidelity

fun do_call :: "qiskit \<Rightarrow> call \<Rightarrow> Experiment \<Rightarrow> error option \<times> Experiment" where
  "do_call env (Build b) = call_builder env b"
| "do_call env RunAll = runAllCircuits env"
| "do_call env CalculateFidelity = calculateFidelityOfDataQubits env"

text \<open>Calls made one after the other, whether or not one of them raised.\<close>

fun do_calls :: "qiskit \<Rightarrow> call list \<Rightarrow> Experiment \<Rightarrow> Experiment" where
  "do_calls env [] self = self"
| "do_calls env (c # cs) self = do_calls env cs (snd (do_call env c self))"

text \<open>
  The full pipeline: circuit-adding calls, then \<open>runAllCircuits\<close>, then
  \<open>calculateFidelityOfDataQubits\<close>; it stops at the first exception.
\<close>

fun add_all :: "qiskit \<Rightarrow> builder list \<Rightarrow> Experiment \<Rightarrow> error option \<times> Experiment" where
  "add_all env [] self = (None, self)"
| "add_all env (b # bs) self =
     (case call_builder env b self of
        (Some e, self') \<Rightarrow> (Some e, self')
      | (None, self') \<Rightarrow> add_all env bs self')"

definition pipeline :: "qiskit \<Rightarrow> builder list \<Rightarrow> Experiment \<Rightarrow> error option \<times> Experiment" where
  "pipeline env bs self =
     (case add_all env bs self of
        (Some e, self1) \<Rightarrow> (Some e, self1)
      | (None, self1) \<Rightarrow>
          (case runAllCircuits env self1 of
             (Some e, self2) \<Rightarrow> (Some e, self2)
           | (None, self2) \<Rightarrow> calculateFidelityOfDataQubits env self2))"

section \<open>The fidelity score\<close>

text \<open>
  Modelled from the spec: the body of \<open>hellinger_fidelity\<close>, which the class imports
  from the quantum library and only calls. The specification describes the score as one
  minus the Hellinger distance of the two count mappings, each normalised to a
  probability distribution over its own keys, a key missing from a mapping having
  probability zero. The Hellinger distance of \<open>P\<close> and \<open>Q\<close> is
  \<open>sqrt (\<Sum>k. (sqrt (P k) - sqrt (Q k))\<^sup>2) / sqrt 2\<close>. Probabilities are exact reals here,
  not floating-point numbers.
\<close>

definition total_count :: "counts \<Rightarrow> int" where
  "total_count d = sum_list (dict_values d)"

definition probability :: "counts \<Rightarrow> string \<Rightarrow> real" where
  "probability d k =
     (case map_of d k of None \<Rightarrow> 0 | Some c \<Rightarrow> real_of_int c / real_of_int (total_count d))"

definition hellinger_distance :: "counts \<Rightarrow> counts \<Rightarrow> real" where
  "hellinger_distance p q =
     sqrt (\<Sum>k \<in> set (dict_keys p) \<union> set (dict_keys q).
             (sqrt (probability p k) - sqrt (probability q k))\<^sup>2) / sqrt 2"

definition score :: "counts \<Rightarrow> counts \<Rightarrow> real" where
  "score p q = 1 - hellinger_distance p q"

text \<open>A valid distribution: a non-empty mapping whose counts are positive.\<close>

definition valid_distribution :: "counts \<Rightarrow> bool" where
  "valid_distribution d = (d \<noteq> [] \<and> dict_ok d \<and> list_all (\<lambda>(k, c). 0 < c) d)"

section \<open>Example data\<close>

text \<open>
  A three-qubit backend without a Y gate, stand-ins for the library calls, and the
  experiment the constructor builds on them: concrete inputs to run the definitions on.
\<close>

definition example_backend :: ibm_backend where
  "example_backend =
     \<lparr>target = [(''x'', [([0], \<lparr>ip_duration = Some 32, ip_error = None\<rparr>),
                       ([1], \<lparr>ip_duration = Some 32, ip_error = None\<rparr>),
                       ([2], \<lparr>ip_duration = Some 40, ip_error = None\<rparr>)])],
      target_num_qubits = 3,
      basis_gates = [''x'', ''sx'', ''rz'', ''ecr'']\<rparr>"

definition example_qiskit :: qiskit where
  "example_qiskit =
     \<lparr>transpile = (\<lambda>b qc layout.
        Inr (map (\<lambda>ins. \<lparr>op_name = ''op'', op_qubits = qubits ins, duration = Some 13\<rparr>) (data qc))),
      pad_dd = (\<lambda>b dd_sequence qs c. Inr c),
      basis_translator = (\<lambda>b c. Inr c),
      sampler_run = (\<lambda>b batch. Inr (map (\<lambda>pub. [(''0111'', 990), (''1111'', 6), (''0000'', 4)]) batch)),
      hellinger_fidelity = (\<lambda>p q. Inr (score p q))\<rparr>"

definition example_experiment :: Experiment where
  "example_experiment =
     \<lparr>numQubits = 3,
      initialLayout = [0, 1, 2],
      initialLayoutWithBuffer = [0, 1, 2],
      initialState = 0,
      ddSequenceType = 0,
      groverOperator = createGroverOperator,
      backend = example_backend\<lparr>target := target example_backend @
        [(''y'', [([0], \<lparr>ip_duration = Some 32, ip_error = None\<rparr>),
                  ([1], \<lparr>ip_duration = Some 32, ip_error = None\<rparr>),
                  ([2], \<lparr>ip_duration = Some 40, ip_error = None\<rparr>)])]\<rparr>,
      circuits = [], result = [], fidelities = []\<rparr>"

section \<open>Properties\<close>

subsection \<open>The exception monad\<close>

lemma bind_Inl [simp]: "bind (Inl e) f = Inl e"
  by (simp add: bind_def)

lemma bind_Inr [simp]: "bind (Inr x) f = f x"
  by (simp add: bind_def)

lemma bind_eq_Inr: "bind m f = Inr y \<longleftrightarrow> (\<exists>x. m = Inr x \<and> f x = Inr y)"
  by (cases m) simp_all


subsection \<open>Duration rounding\<close>

lemma round_duration_props:
  "round_duration d mod 8 = 0 \<and> d \<le> round_duration d \<and> round_duration d - d < 8"
  unfolding round_duration_def by presburger

lemma round_duration_fixed: "d mod 8 = 0 \<Longrightarrow> round_duration d = d"
  by (simp add: round_duration_def)

lemma round_durations_total:
  "\<forall>item \<in> set items. duration item \<noteq> None \<Longrightarrow>
   \<exists>items'. round_durations items = Inr items' \<and> length items' = length items \<and>
     (\<forall>i < length items. items' ! i =
        (items ! i)\<lparr>duration := Some (round_duration (the (duration (items ! i))))\<rparr>)"
proof (induction items)
  case Nil
  show ?case by simp
next
  case (Cons item items)
  from Cons.prems obtain d where d: "duration item = Some d" by auto
  from Cons obtain items' where r: "round_durations items = Inr items'"
    and l: "length items' = length items"
    and e: "\<forall>i < length items. items' ! i =
        (items ! i)\<lparr>duration := Some (round_duration (the (duration (items ! i))))\<rparr>"
    by auto
  have "round_durations (item # items) = Inr (item\<lparr>duration := Some (round_duration d)\<rparr> # items')"
    using d r by (simp add: round_item_def)
  moreover have "\<forall>i < length (item # items).
      (item\<lparr>duration := Some (round_duration d)\<rparr> # items') ! i =
        ((item # items) ! i)\<lparr>duration := Some (round_duration (the (duration ((item # items) ! i))))\<rparr>"
    using d e by (auto simp: nth_Cons split: nat.splits)
  ultimately show ?case using l by simp
qed

text \<open>
  Claim C5. The rounding pass run after dynamical-decoupling padding returns, for a
  circuit all of whose instructions carry an integer duration, a circuit of the same
  length in which the instruction at each position has its duration \<open>d\<close> replaced by a
  value \<open>r\<close> with \<open>r mod 8 = 0\<close>, \<open>d \<le> r\<close> and \<open>r - d < 8\<close>; a duration that is already
  a multiple of 8 is kept.
\<close>

theorem rounding_pass_rounds_up_to_multiple_of_8:
  assumes "\<forall>item \<in> set items. duration item \<noteq> None"
  shows "\<exists>items'. round_durations items = Inr items' \<and> length items' = length items \<and>
     (\<forall>i < length items. \<exists>d r. duration (items ! i) = Some d \<and> duration (items' ! i) = Some r \<and>
        r = round_duration d \<and> r mod 8 = 0 \<and> d \<le> r \<and> r - d < 8 \<and> (d mod 8 = 0 \<longrightarrow> r = d))"
proof -
  from round_durations_total [OF assms] obtain items' where
    r: "round_durations items = Inr items'" and l: "length items' = length items"
    and e: "\<forall>i < length items. items' ! i =
        (items ! i)\<lparr>duration := Some (round_duration (the (duration (items ! i))))\<rparr>"
    by blast
  have "\<exists>d r. duration (items ! i) = Some d \<and> duration (items' ! i) = Some r \<and>
        r = round_duration d \<and> r mod 8 = 0 \<and> d \<le> r \<and> r - d < 8 \<and> (d mod 8 = 0 \<longrightarrow> r = d)"
    if i: "i < length items" for i
  proof -
    from i assms obtain d where d: "duration (items ! i) = Some d"
      by (metis nth_mem not_None_eq)
    have "duration (items' ! i) = Some (round_duration d)"
      using e i d by simp
    then show ?thesis
      using d round_duration_props [of d] round_duration_fixed [of d] by simp
  qed
  then show ?thesis using r l by blast
qed

theorem rounding_pass_witness:
  "round_durations
     [\<lparr>op_name = ''x'', op_qubits = [4], duration = Some 13\<rparr>,
      \<lparr>op_name = ''delay'', op_qubits = [3], duration = Some 160\<rparr>]
   = Inr
     [\<lparr>op_name = ''x'', op_qubits = [4], duration = Some 16\<rparr>,
      \<lparr>op_name = ''delay'', op_qubits = [3], duration = Some 160\<rparr>]"
  using rounding_pass_rounds_up_to_multiple_of_8
    [of "[\<lparr>op_name = ''x'', op_qubits = [4], duration = Some 13\<rparr>,
          \<lparr>op_name = ''delay'', op_qubits = [3], duration = Some 160\<rparr>]"]
  by (simp add: round_item_def round_duration_def)

subsection \<open>The sweep parameter\<close>

lemma slots_at_0: "slots_at 0 = 4"
  by (simp add: slots_at_def update_slots_def)

lemma slots_at_Suc: "slots_at (Suc i) = update_slots (Suc i) (slots_at i)"
  by (simp add: slots_at_def)

lemma halving_indices: "Suc i < 20 \<Longrightarrow> Suc i mod 5 = 0 \<Longrightarrow> i = 4 \<or> i = 9 \<or> i = 14"
  by presburger

lemma other_indices: "Suc i < 20 \<Longrightarrow> Suc i mod 5 \<noteq> 0 \<Longrightarrow> i \<noteq> 4 \<and> i \<noteq> 9 \<and> i \<noteq> 14"
  by presburger

lemma slots_at_spec_schedule: "slots_at i = spec_schedule i"
proof (induction i)
  case 0
  show ?case by (simp add: slots_at_0 spec_schedule_def)
next
  case (Suc i)
  consider (halve) "Suc i < 20" "Suc i mod 5 = 0" | (keep) "Suc i < 20" "Suc i mod 5 \<noteq> 0"
    | (late) "20 \<le> Suc i"
    by linarith
  then show ?case
  proof cases
    case halve
    have "i = 4 \<or> i = 9 \<or> i = 14" using halve halving_indices [of i] by simp
    then show ?thesis
      using Suc halve by (auto simp: slots_at_Suc update_slots_def spec_schedule_def)
  next
    case keep
    have "i \<noteq> 4 \<and> i \<noteq> 9 \<and> i \<noteq> 14" using keep other_indices [of i] by simp
    then show ?thesis
      using Suc keep by (auto simp: slots_at_Suc update_slots_def spec_schedule_def)
  next
    case late
    then show ?thesis
      using Suc by (auto simp: slots_at_Suc update_slots_def spec_schedule_def)
  qed
qed

lemma spec_schedule_early_ge_half: "i < 20 \<Longrightarrow> 1/2 \<le> spec_schedule i"
  by (simp add: spec_schedule_def)

lemma spec_schedule_early_ge_one: "i < 15 \<Longrightarrow> 1 \<le> spec_schedule i"
  by (simp add: spec_schedule_def)

lemma spec_schedule_late_le: "20 \<le> j \<Longrightarrow> spec_schedule j \<le> 3/4"
  by (simp add: spec_schedule_def)

lemma spec_schedule_later_le: "25 \<le> j \<Longrightarrow> spec_schedule j \<le> 1/2"
  by (simp add: spec_schedule_def)

lemma spec_schedule_mono_early: "i \<le> j \<Longrightarrow> j < 20 \<Longrightarrow> spec_schedule j \<le> spec_schedule i"
  by (simp add: spec_schedule_def)

lemma spec_schedule_mono_late: "20 \<le> i \<Longrightarrow> i \<le> j \<Longrightarrow> spec_schedule j \<le> spec_schedule i"
  by (simp add: spec_schedule_def)

text \<open>
  Claim C6. The value of \<open>slots\<close> with which iteration \<open>i\<close> of an attack method builds
  its delays is 4 for \<open>i\<close> in [0,5), 2 in [5,10), 1 in [10,15), 0.5 in [15,20), 0.75 in
  [20,25), 0.5 in [25,30), 0.05 in [30,35), 0.025 in [35,40), and 0.025 from 40 on. The
  four attack methods are the one loop \<open>attack_loop\<close> started with \<open>slots = 8\<close>, so the
  schedule is the same in all of them.
\<close>

theorem attack_slots_follow_fixed_schedule:
  "slots_at i =
     (if i < 5 then 4 else if i < 10 then 2 else if i < 15 then 1 else if i < 20 then 0.5
      else if i < 25 then 0.75 else if i < 30 then 0.5 else if i < 35 then 0.05
      else if i < 40 then 0.025 else 0.025)"
  by (simp add: slots_at_spec_schedule spec_schedule_def)

text \<open>
  Claim C7, as stated, fails: the value rises from 0.5 at index 15 to 0.75 at index 20.
\<close>

theorem slots_not_monotone_counterexample:
  "(15::nat) \<le> 20 \<and> (20::nat) < 45 \<and> \<not> slots_at 20 \<le> slots_at 15"
  by (simp add: slots_at_spec_schedule spec_schedule_def)

text \<open>
  Claim C7, amended. For sweep indices \<open>i \<le> j\<close> the value at \<open>j\<close> is at most the value
  at \<open>i\<close>, except when \<open>i\<close> lies in [15,20) and \<open>j\<close> in [20,25).
\<close>

theorem slots_nonincreasing_except_step_to_20:
  assumes "i \<le> j" and "j < 45" and "\<not> (15 \<le> i \<and> i < 20 \<and> 20 \<le> j \<and> j < 25)"
  shows "slots_at j \<le> slots_at i"
proof -
  consider (early) "j < 20" | (late) "20 \<le> i" | (far) "i < 15" "20 \<le> j" | (later) "i < 20" "25 \<le> j"
    using assms by linarith
  then have "spec_schedule j \<le> spec_schedule i"
  proof cases
    case early
    then show ?thesis using assms spec_schedule_mono_early by simp
  next
    case late
    then show ?thesis using assms spec_schedule_mono_late by simp
  next
    case far
    then show ?thesis
      using spec_schedule_early_ge_one [of i] spec_schedule_late_le [of j] by linarith
  next
    case later
    then show ?thesis
      using spec_schedule_early_ge_half [of i] spec_schedule_later_le [of j] by linarith
  qed
  then show ?thesis by (simp add: slots_at_spec_schedule)
qed

theorem slots_nonincreasing_witness:
  "(10::nat) \<le> 22 \<and> (22::nat) < 45 \<and> \<not> (15 \<le> (10::nat) \<and> (10::nat) < 20 \<and> 20 \<le> (22::nat) \<and> (22::nat) < 25)
   \<and> slots_at 22 \<le> slots_at 10"
  using slots_nonincreasing_except_step_to_20 [of 10 22] by simp

subsection \<open>What the methods leave unchanged\<close>

lemma append_circuit_frame:
  "\<exists>cs. snd (append_circuit self c) = self\<lparr>circuits := circuits self @ cs\<rparr>"
proof (cases c)
  case (Inl e)
  then have "snd (append_circuit self c) = self\<lparr>circuits := circuits self @ []\<rparr>"
    by (simp add: append_circuit_def)
  then show ?thesis by blast
next
  case (Inr tr)
  then have "snd (append_circuit self c) = self\<lparr>circuits := circuits self @ [tr]\<rparr>"
    by (simp add: append_circuit_def)
  then show ?thesis by blast
qed

lemma apply_dd_config:
  "apply_dd env (self\<lparr>circuits := cs\<rparr>) layout tr = apply_dd env self layout tr"
  by (simp add: apply_dd_def)

lemma attack_iteration_config:
  "attack_iteration env (self\<lparr>circuits := cs\<rparr>) spacing dd i slots =
   attack_iteration env self spacing dd i slots"
  by (cases dd) (simp_all add: attack_iteration_def apply_dd_config Let_def)

lemma attack_loop_frame:
  "\<exists>cs. snd (attack_loop env spacing dd idxs slots self) = self\<lparr>circuits := circuits self @ cs\<rparr>"
proof (induction idxs arbitrary: slots self)
  case Nil
  have "snd (attack_loop env spacing dd [] slots self) = self\<lparr>circuits := circuits self @ []\<rparr>"
    by simp
  then show ?case by blast
next
  case (Cons i rest)
  show ?case
  proof (cases "attack_iteration env self spacing dd i slots")
    case (Inl e)
    then have "snd (attack_loop env spacing dd (i # rest) slots self)
        = self\<lparr>circuits := circuits self @ []\<rparr>"
      by simp
    then show ?thesis by blast
  next
    case (Inr r)
    obtain slots' c where r: "r = (slots', c)" by (cases r)
    obtain cs where cs: "snd (attack_loop env spacing dd rest slots' (self\<lparr>circuits := circuits self @ [c]\<rparr>))
        = (self\<lparr>circuits := circuits self @ [c]\<rparr>)\<lparr>circuits := circuits (self\<lparr>circuits := circuits self @ [c]\<rparr>) @ cs\<rparr>"
      using Cons.IH by blast
    have "snd (attack_loop env spacing dd (i # rest) slots self)
        = self\<lparr>circuits := circuits self @ (c # cs)\<rparr>"
      using Inr r cs by simp
    then show ?thesis by blast
  qed
qed

lemma call_builder_frame:
  "\<exists>cs. snd (call_builder env b self) = self\<lparr>circuits := circuits self @ cs\<rparr>"
  by (cases b)
    (simp_all add: addNoAttackCircuit_def addNoAttackPlusDDCircuit_def
      addAttackWithoutMitigationCircuits_def addAttackWithDDCircuits_def
      addAttackWithSpacingCircuits_def addAttackWithDDAndSpacingCircuits_def
      append_circuit_frame attack_loop_frame)

lemma collect_counts_frame:
  "\<exists>rs. snd (collect_counts jobResult idxs self) = self\<lparr>result := result self @ rs\<rparr>"
proof (induction idxs arbitrary: self)
  case Nil
  have "snd (collect_counts jobResult [] self) = self\<lparr>result := result self @ []\<rparr>" by simp
  then show ?case by blast
next
  case (Cons i rest)
  show ?case
  proof (cases "i < length jobResult")
    case True
    obtain rs where "snd (collect_counts jobResult rest (self\<lparr>result := result self @ [jobResult ! i]\<rparr>))
      = (self\<lparr>result := result self @ [jobResult ! i]\<rparr>)\<lparr>result :=
           result (self\<lparr>result := result self @ [jobResult ! i]\<rparr>) @ rs\<rparr>"
      using Cons.IH by blast
    then have "snd (collect_counts jobResult (i # rest) self)
      = self\<lparr>result := result self @ (jobResult ! i # rs)\<rparr>"
      using True by simp
    then show ?thesis by blast
  next
    case False
    then have "snd (collect_counts jobResult (i # rest) self) = self\<lparr>result := result self @ []\<rparr>"
      by simp
    then show ?thesis by blast
  qed
qed

lemma runAllCircuits_frame:
  "\<exists>rs. snd (runAllCircuits env self) = self\<lparr>result := rs\<rparr>"
proof (cases "sampler_run env (backend self) (map (\<lambda>circuit. [circuit]) (circuits self))")
  case (Inl e)
  then have "snd (runAllCircuits env self) = self\<lparr>result := result self\<rparr>"
    by (simp add: runAllCircuits_def)
  then show ?thesis by blast
next
  case (Inr jobResult)
  obtain rs where "snd (collect_counts jobResult [0..<length (circuits self)] (self\<lparr>result := []\<rparr>))
     = (self\<lparr>result := []\<rparr>)\<lparr>result := result (self\<lparr>result := []\<rparr>) @ rs\<rparr>"
    using collect_counts_frame by blast
  then have "snd (runAllCircuits env self) = self\<lparr>result := rs\<rparr>"
    using Inr by (simp add: runAllCircuits_def)
  then show ?thesis by blast
qed

lemma score_results_frame:
  "\<exists>fs. snd (score_results env rs self) = self\<lparr>fidelities := fidelities self @ fs\<rparr>"
proof (induction rs arbitrary: self)
  case Nil
  have "snd (score_results env [] self) = self\<lparr>fidelities := fidelities self @ []\<rparr>" by simp
  then show ?case by blast
next
  case (Cons count rest)
  show ?case
  proof (cases "find_fidelity env count")
    case (Inl e)
    then have "snd (score_results env (count # rest) self) = self\<lparr>fidelities := fidelities self @ []\<rparr>"
      by simp
    then show ?thesis by blast
  next
    case (Inr f)
    obtain fs where "snd (score_results env rest (self\<lparr>fidelities := fidelities self @ [f]\<rparr>))
      = (self\<lparr>fidelities := fidelities self @ [f]\<rparr>)\<lparr>fidelities :=
           fidelities (self\<lparr>fidelities := fidelities self @ [f]\<rparr>) @ fs\<rparr>"
      using Cons.IH by blast
    then have "snd (score_results env (count # rest) self)
      = self\<lparr>fidelities := fidelities self @ (f # fs)\<rparr>"
      using Inr by simp
    then show ?thesis by blast
  qed
qed

lemma calculateFidelity_frame:
  "\<exists>fs. snd (calculateFidelityOfDataQubits env self) = self\<lparr>fidelities := fs\<rparr>"
proof -
  obtain fs where "snd (score_results env (result self) (self\<lparr>fidelities := []\<rparr>))
     = (self\<lparr>fidelities := []\<rparr>)\<lparr>fidelities := fidelities (self\<lparr>fidelities := []\<rparr>) @ fs\<rparr>"
    using score_results_frame by blast
  then have "snd (calculateFidelityOfDataQubits env self) = self\<lparr>fidelities := fs\<rparr>"
    by (simp add: calculateFidelityOfDataQubits_def)
  then show ?thesis by blast
qed

lemma do_call_result:
  assumes "RunAll \<noteq> c"
  shows "result (snd (do_call env c self)) = result self"
proof (cases c)
  case (Build b)
  obtain cs where "snd (call_builder env b self) = self\<lparr>circuits := circuits self @ cs\<rparr>"
    using call_builder_frame by blast
  then show ?thesis using Build by simp
next
  case RunAll
  then show ?thesis using assms by simp
next
  case CalculateFidelity
  obtain fs where "snd (calculateFidelityOfDataQubits env self) = self\<lparr>fidelities := fs\<rparr>"
    using calculateFidelity_frame by blast
  then show ?thesis using CalculateFidelity by simp
qed

lemma do_call_fidelities:
  assumes "CalculateFidelity \<noteq> c"
  shows "fidelities (snd (do_call env c self)) = fidelities self"
proof (cases c)
  case (Build b)
  obtain cs where "snd (call_builder env b self) = self\<lparr>circuits := circuits self @ cs\<rparr>"
    using call_builder_frame by blast
  then show ?thesis using Build by simp
next
  case RunAll
  obtain rs where "snd (runAllCircuits env self) = self\<lparr>result := rs\<rparr>"
    using runAllCircuits_frame by blast
  then show ?thesis using RunAll by simp
next
  case CalculateFidelity
  then show ?thesis using assms by simp
qed

lemma do_calls_result:
  "RunAll \<notin> set cs \<Longrightarrow> result (do_calls env cs self) = result self"
  by (induction cs arbitrary: self) (simp_all add: do_call_result)

lemma do_calls_fidelities:
  "CalculateFidelity \<notin> set cs \<Longrightarrow> fidelities (do_calls env cs self) = fidelities self"
  by (induction cs arbitrary: self) (simp_all add: do_call_fidelities)

lemma init_collections:
  "init n il ilb b st dd = Inr self \<Longrightarrow> circuits self = [] \<and> result self = [] \<and> fidelities self = []"
  by (auto simp: init_def bind_eq_Inr)

subsection \<open>Running and scoring\<close>

lemma collect_counts_ok:
  "collect_counts jobResult idxs self = (None, self') \<Longrightarrow>
   self' = self\<lparr>result := result self @ map ((!) jobResult) idxs\<rparr> \<and>
   (\<forall>i \<in> set idxs. i < length jobResult)"
proof (induction idxs arbitrary: self)
  case Nil
  then show ?case by simp
next
  case (Cons i rest)
  from Cons.prems have i: "i < length jobResult"
    by (simp split: if_splits)
  with Cons.prems have
    "collect_counts jobResult rest (self\<lparr>result := result self @ [jobResult ! i]\<rparr>) = (None, self')"
    by simp
  from Cons.IH [OF this] show ?case using i by simp
qed

lemma runAllCircuits_ok:
  assumes "runAllCircuits env self = (None, self')"
  shows "\<exists>jobResult. sampler_run env (backend self) (map (\<lambda>circuit. [circuit]) (circuits self)) = Inr jobResult \<and>
     length (circuits self) \<le> length jobResult \<and>
     self' = self\<lparr>result := take (length (circuits self)) jobResult\<rparr>"
proof (cases "sampler_run env (backend self) (map (\<lambda>circuit. [circuit]) (circuits self))")
  case (Inl e)
  with assms show ?thesis by (simp add: runAllCircuits_def)
next
  case (Inr jobResult)
  with assms have
    "collect_counts jobResult [0..<length (circuits self)] (self\<lparr>result := []\<rparr>) = (None, self')"
    by (simp add: runAllCircuits_def)
  from collect_counts_ok [OF this]
  have s: "self' = self\<lparr>result := map ((!) jobResult) [0..<length (circuits self)]\<rparr>"
    and b: "\<forall>i \<in> set [0..<length (circuits self)]. i < length jobResult"
    by simp_all
  have le: "length (circuits self) \<le> length jobResult"
  proof (cases "circuits self")
    case Nil
    then show ?thesis by simp
  next
    case (Cons c cs)
    then have "length (circuits self) - 1 \<in> set [0..<length (circuits self)]" by simp
    with b have "length (circuits self) - 1 < length jobResult" by blast
    then show ?thesis by linarith
  qed
  have "map ((!) jobResult) [0..<length (circuits self)] = take (length (circuits self)) jobResult"
    using le by (intro nth_equalityI) simp_all
  with s le Inr show ?thesis by simp
qed

lemma score_results_ok:
  "score_results env rs self = (None, self') \<Longrightarrow>
   \<exists>fs. self' = self\<lparr>fidelities := fidelities self @ fs\<rparr> \<and> length fs = length rs \<and>
     (\<forall>i < length rs. find_fidelity env (rs ! i) = Inr (fs ! i))"
proof (induction rs arbitrary: self)
  case Nil
  then show ?case by simp
next
  case (Cons count rest)
  from Cons.prems obtain f where f: "find_fidelity env count = Inr f"
    by (cases "find_fidelity env count") simp_all
  with Cons.prems have
    "score_results env rest (self\<lparr>fidelities := fidelities self @ [f]\<rparr>) = (None, self')"
    by simp
  from Cons.IH [OF this] obtain fs where
    s: "self' = self\<lparr>fidelities := fidelities self @ f # fs\<rparr>" and l: "length fs = length rest"
    and e: "\<forall>i < length rest. find_fidelity env (rest ! i) = Inr (fs ! i)"
    by auto
  have "\<forall>i < length (count # rest). find_fidelity env ((count # rest) ! i) = Inr ((f # fs) ! i)"
    using f e by (auto simp: nth_Cons split: nat.splits)
  with s l show ?case by auto
qed

lemma calculateFidelity_ok:
  assumes "calculateFidelityOfDataQubits env self = (None, self')"
  shows "\<exists>fs. self' = self\<lparr>fidelities := fs\<rparr> \<and> length fs = length (result self) \<and>
     (\<forall>i < length (result self). find_fidelity env (result self ! i) = Inr (fs ! i))"
proof -
  from assms have "score_results env (result self) (self\<lparr>fidelities := []\<rparr>) = (None, self')"
    by (simp add: calculateFidelityOfDataQubits_def)
  from score_results_ok [OF this] show ?thesis by auto
qed

lemma pipeline_ok:
  assumes "pipeline env bs self = (None, self')"
  shows "\<exists>self1 self2. add_all env bs self = (None, self1) \<and> runAllCircuits env self1 = (None, self2) \<and>
     calculateFidelityOfDataQubits env self2 = (None, self')"
  using assms unfolding pipeline_def
  by (auto split: prod.splits option.splits)

text \<open>
  Claim C1. When the full pipeline (any list of circuit-adding calls, then
  \<open>runAllCircuits\<close>, then \<open>calculateFidelityOfDataQubits\<close>) completes without an
  exception, the circuit, result and fidelity collections have the same length, the
  \<open>i\<close>-th result is the \<open>i\<close>-th entry of what the sampler returned for the batch of the
  circuits in their order, and the \<open>i\<close>-th fidelity is \<open>find_fidelity\<close> of the \<open>i\<close>-th
  result.
\<close>

theorem pipeline_collections_index_aligned:
  assumes "pipeline env bs self = (None, self')"
  shows "length (result self') = length (circuits self') \<and>
     length (fidelities self') = length (circuits self') \<and>
     (\<exists>jobResult. sampler_run env (backend self') (map (\<lambda>circuit. [circuit]) (circuits self')) = Inr jobResult \<and>
        (\<forall>i < length (circuits self'). i < length jobResult \<and>
           result self' ! i = jobResult ! i \<and>
           find_fidelity env (result self' ! i) = Inr (fidelities self' ! i)))"
proof -
  from pipeline_ok [OF assms] obtain self1 self2 where
    run: "runAllCircuits env self1 = (None, self2)" and
    calc: "calculateFidelityOfDataQubits env self2 = (None, self')"
    by blast
  from runAllCircuits_ok [OF run] obtain jobResult where
    jr: "sampler_run env (backend self1) (map (\<lambda>circuit. [circuit]) (circuits self1)) = Inr jobResult"
    and le: "length (circuits self1) \<le> length jobResult"
    and s2: "self2 = self1\<lparr>result := take (length (circuits self1)) jobResult\<rparr>"
    by blast
  from calculateFidelity_ok [OF calc] obtain fs where
    s': "self' = self2\<lparr>fidelities := fs\<rparr>" and lf: "length fs = length (result self2)"
    and ef: "\<forall>i < length (result self2). find_fidelity env (result self2 ! i) = Inr (fs ! i)"
    by blast
  have c: "circuits self' = circuits self1" and b: "backend self' = backend self1"
    and r: "result self' = take (length (circuits self1)) jobResult"
    and f: "fidelities self' = fs"
    using s2 s' by simp_all
  have lr: "length (result self') = length (circuits self1)" using r le by simp
  have l1: "length (result self') = length (circuits self')"
    using lr c by simp
  have l2: "length (fidelities self') = length (circuits self')"
    using f lf s2 le c by simp
  have jr': "sampler_run env (backend self') (map (\<lambda>circuit. [circuit]) (circuits self')) = Inr jobResult"
    using jr c b by simp
  have "\<forall>i < length (circuits self'). i < length jobResult \<and>
           result self' ! i = jobResult ! i \<and>
           find_fidelity env (result self' ! i) = Inr (fidelities self' ! i)"
    using c r f le ef s2 by simp
  with jr' have "\<exists>jobResult. sampler_run env (backend self') (map (\<lambda>circuit. [circuit]) (circuits self')) = Inr jobResult \<and>
        (\<forall>i < length (circuits self'). i < length jobResult \<and>
           result self' ! i = jobResult ! i \<and>
           find_fidelity env (result self' ! i) = Inr (fidelities self' ! i))"
    by blast
  with l1 l2 show ?thesis by blast
qed

lemma example_init: "init 3 [0,1,2] [0,1,2] example_backend 0 0 = Inr example_experiment"
  by (simp add: init_def addYGateToTargetBackend_def example_backend_def example_experiment_def
     target_instructions_def py_range_def dict_getitem_def add_instruction_def dict_contains_def
     upto_rec1)

lemma example_pipeline_runs:
  "fst (pipeline example_qiskit [NoAttack] example_experiment) = None \<and>
   length (circuits (snd (pipeline example_qiskit [NoAttack] example_experiment))) = 1"
  by (simp add: pipeline_def addNoAttackCircuit_def append_circuit_def build_no_attack_def
      new_register_def circuit_prefix_def prepare_initial_state_def reg_getitem_def
      append_grover_def measure_all_def example_qiskit_def example_experiment_def
      runAllCircuits_def calculateFidelityOfDataQubits_def find_fidelity_def reduce_counts_def
      reduce_step_def dict_keys_def dict_contains_def dict_getitem_def last3_def upto_rec1)

theorem pipeline_collections_witness:
  "pipeline example_qiskit [NoAttack] example_experiment
     = (None, snd (pipeline example_qiskit [NoAttack] example_experiment)) \<and>
   length (circuits (snd (pipeline example_qiskit [NoAttack] example_experiment))) = 1 \<and>
   length (result (snd (pipeline example_qiskit [NoAttack] example_experiment))) = 1 \<and>
   length (fidelities (snd (pipeline example_qiskit [NoAttack] example_experiment))) = 1"
proof -
  have run: "pipeline example_qiskit [NoAttack] example_experiment
     = (None, snd (pipeline example_qiskit [NoAttack] example_experiment))"
    using example_pipeline_runs by (metis prod.collapse)
  show ?thesis
    using run example_pipeline_runs pipeline_collections_index_aligned [OF run] by simp
qed

text \<open>
  Claim C9. On an experiment as the constructor returns it, and after any calls that do
  not include \<open>runAllCircuits\<close>, \<open>getResult\<close> prints its warning and returns the empty
  list; after any calls that do not include \<open>calculateFidelityOfDataQubits\<close>,
  \<open>getFidelities\<close> prints its warning and returns the empty list. Neither accessor has
  a statement that can raise.
\<close>

theorem premature_access_warns_and_returns_empty:
  assumes "init n il ilb b st dd = Inr self0"
  shows "getResult self0 = ([''No results yet, returning an empty array.''], []) \<and>
     getFidelities self0 = ([''Fidelities are not yet calculated. Returning an empty array''], []) \<and>
     (RunAll \<notin> set cs \<longrightarrow>
        getResult (do_calls env cs self0) = ([''No results yet, returning an empty array.''], [])) \<and>
     (CalculateFidelity \<notin> set cs \<longrightarrow>
        getFidelities (do_calls env cs self0)
          = ([''Fidelities are not yet calculated. Returning an empty array''], []))"
proof -
  from init_collections [OF assms] have r: "result self0 = []" and f: "fidelities self0 = []"
    by simp_all
  have "result (do_calls env cs self0) = []" if "RunAll \<notin> set cs"
    using that r by (simp add: do_calls_result)
  moreover have "fidelities (do_calls env cs self0) = []" if "CalculateFidelity \<notin> set cs"
    using that f by (simp add: do_calls_fidelities)
  ultimately show ?thesis
    using r f by (simp add: getResult_def getFidelities_def)
qed

theorem premature_access_witness:
  "init 3 [0,1,2] [0,1,2] example_backend 0 0 = Inr example_experiment \<and>
   RunAll \<notin> set [Build NoAttack, CalculateFidelity] \<and>
   getResult (do_calls example_qiskit [Build NoAttack, CalculateFidelity] example_experiment)
     = ([''No results yet, returning an empty array.''], []) \<and>
   getFidelities example_experiment
     = ([''Fidelities are not yet calculated. Returning an empty array''], [])"
  using example_init
    premature_access_warns_and_returns_empty [OF example_init, of "[Build NoAttack, CalculateFidelity]" example_qiskit]
  by simp

text \<open>
  Claim C10. Each of the six circuit-building methods, whether it returns or raises,
  leaves the object equal to the one it was called on except for the circuit collection,
  which is the old collection followed by the circuits appended: the result and fidelity
  collections, the circuits appended before, and the fields \<open>numQubits\<close>,
  \<open>initialLayout\<close>, \<open>initialLayoutWithBuffer\<close>, \<open>initialState\<close>, \<open>ddSequenceType\<close>,
  \<open>groverOperator\<close> and \<open>backend\<close> are unchanged.
\<close>

theorem builder_methods_only_append_circuits:
  "(\<exists>cs. snd (addNoAttackCircuit env self) = self\<lparr>circuits := circuits self @ cs\<rparr>) \<and>
   (\<exists>cs. snd (addNoAttackPlusDDCircuit env self) = self\<lparr>circuits := circuits self @ cs\<rparr>) \<and>
   (\<exists>cs. snd (addAttackWithoutMitigationCircuits env self) = self\<lparr>circuits := circuits self @ cs\<rparr>) \<and>
   (\<exists>cs. snd (addAttackWithDDCircuits env self) = self\<lparr>circuits := circuits self @ cs\<rparr>) \<and>
   (\<exists>cs. snd (addAttackWithSpacingCircuits env self) = self\<lparr>circuits := circuits self @ cs\<rparr>) \<and>
   (\<exists>cs. snd (addAttackWithDDAndSpacingCircuits env self) = self\<lparr>circuits := circuits self @ cs\<rparr>)"
  using call_builder_frame [of env NoAttack self]
    call_builder_frame [of env NoAttackPlusDD self]
    call_builder_frame [of env AttackWithoutMitigation self]
    call_builder_frame [of env AttackWithDD self]
    call_builder_frame [of env AttackWithSpacing self]
    call_builder_frame [of env AttackWithDDAndSpacing self]
  by simp

subsection \<open>Summing counts by suffix\<close>

lemma map_of_dict_setitem_same: "map_of (dict_setitem k v d) k = Some v"
  by (induction d) auto

lemma map_of_dict_setitem_other: "k' \<noteq> k \<Longrightarrow> map_of (dict_setitem k v d) k' = map_of d k'"
  by (induction d) auto

lemma keys_dict_setitem_old: "k \<in> fst ` set d \<Longrightarrow> map fst (dict_setitem k v d) = map fst d"
  by (induction d) (force simp: image_iff)+

lemma keys_dict_setitem_new: "k \<notin> fst ` set d \<Longrightarrow> map fst (dict_setitem k v d) = map fst d @ [k]"
  by (induction d) auto

lemma dict_ok_setitem: "dict_ok d \<Longrightarrow> dict_ok (dict_setitem k v d)"
  by (cases "k \<in> fst ` set d") (simp_all add: dict_ok_def keys_dict_setitem_old keys_dict_setitem_new)

lemma sum_dict_setitem:
  fixes d :: counts
  shows "sum_list (dict_values (dict_setitem k v d)) =
     (case map_of d k of None \<Rightarrow> sum_list (dict_values d) + v
      | Some old \<Rightarrow> sum_list (dict_values d) - old + v)"
  by (induction d) (auto simp: dict_values_def split: option.splits)

lemma reduce_step_total:
  assumes "dict_getitem counts key = Inr c"
  shows "\<exists>finalState'. reduce_step counts finalState key = Inr finalState' \<and>
     sum_list (dict_values finalState') = sum_list (dict_values finalState) + c \<and>
     (dict_ok finalState \<longrightarrow> dict_ok finalState')"
proof (cases "map_of finalState (last3 key)")
  case None
  have "reduce_step counts finalState key
      = Inr (dict_setitem (last3 key) (0 + c) (dict_setitem (last3 key) 0 finalState))"
    using None assms
    by (simp add: reduce_step_def dict_contains_def dict_getitem_def map_of_dict_setitem_same Let_def)
  moreover have "sum_list (dict_values (dict_setitem (last3 key) (0 + c) (dict_setitem (last3 key) 0 finalState)))
      = sum_list (dict_values finalState) + c"
    using None by (simp add: sum_dict_setitem map_of_dict_setitem_same)
  ultimately show ?thesis by (simp add: dict_ok_setitem)
next
  case (Some old)
  have "reduce_step counts finalState key = Inr (dict_setitem (last3 key) (old + c) finalState)"
    using Some assms by (simp add: reduce_step_def dict_contains_def dict_getitem_def Let_def)
  moreover have "sum_list (dict_values (dict_setitem (last3 key) (old + c) finalState))
      = sum_list (dict_values finalState) + c"
    using Some by (simp add: sum_dict_setitem)
  ultimately show ?thesis by (simp add: dict_ok_setitem)
qed

lemma reduce_loop_total:
  assumes "\<forall>key \<in> set keys. map_of counts key \<noteq> None"
  shows "\<exists>finalState'. reduce_loop counts keys finalState = Inr finalState' \<and>
     sum_list (dict_values finalState')
       = sum_list (dict_values finalState) + sum_list (map (\<lambda>key. the (map_of counts key)) keys) \<and>
     (dict_ok finalState \<longrightarrow> dict_ok finalState')"
  using assms
proof (induction keys arbitrary: finalState)
  case Nil
  show ?case by simp
next
  case (Cons key keys)
  from Cons.prems obtain c where c: "map_of counts key = Some c" by auto
  then have g: "dict_getitem counts key = Inr c" by (simp add: dict_getitem_def)
  from reduce_step_total [OF g, of finalState] obtain fs1 where
    s: "reduce_step counts finalState key = Inr fs1" and
    t: "sum_list (dict_values fs1) = sum_list (dict_values finalState) + c" and
    o: "dict_ok finalState \<longrightarrow> dict_ok fs1"
    by blast
  from Cons.prems have "\<forall>key \<in> set keys. map_of counts key \<noteq> None" by simp
  from Cons.IH [OF this, of fs1] obtain fs2 where
    l: "reduce_loop counts keys fs1 = Inr fs2" and
    t2: "sum_list (dict_values fs2)
       = sum_list (dict_values fs1) + sum_list (map (\<lambda>key. the (map_of counts key)) keys)" and
    o2: "dict_ok fs1 \<longrightarrow> dict_ok fs2"
    by blast
  have "reduce_loop counts (key # keys) finalState = Inr fs2" using s l by simp
  moreover have "sum_list (dict_values fs2)
       = sum_list (dict_values finalState)
         + sum_list (map (\<lambda>key. the (map_of counts key)) (key # keys))"
    using t t2 c by simp
  ultimately show ?case using o o2 by blast
qed

lemma sum_lookups_distinct:
  fixes d :: counts
  assumes "distinct (map fst d)"
  shows "sum_list (map (\<lambda>key. the (map_of d key)) (map fst d)) = sum_list (map snd d)"
  using assms
proof (induction d)
  case Nil
  show ?case by simp
next
  case (Cons kv d)
  obtain k v where kv: "kv = (k, v)" by (cases kv)
  from Cons.prems kv have nk: "k \<notin> set (map fst d)" and dd: "distinct (map fst d)" by simp_all
  have same: "map (\<lambda>key. the (map_of (kv # d) key)) (map fst d) = map (\<lambda>key. the (map_of d key)) (map fst d)"
    using nk kv by (intro map_cong) auto
  have hd: "the (map_of (kv # d) k) = v"
    using kv by simp
  have "sum_list (map (\<lambda>key. the (map_of (kv # d) key)) (map fst (kv # d)))
      = the (map_of (kv # d) k) + sum_list (map (\<lambda>key. the (map_of (kv # d) key)) (map fst d))"
    using kv by simp
  also have "\<dots> = v + sum_list (map (\<lambda>key. the (map_of d key)) (map fst d))"
    by (simp only: same hd)
  also have "\<dots> = v + sum_list (map snd d)"
    using Cons.IH [OF dd] by simp
  finally show ?case using kv by simp
qed

text \<open>
  Claim C2. For every raw result (a mapping with distinct keys from bitstrings to counts),
  the loop of \<open>find_fidelity\<close> that adds up the counts by the last three characters of
  their keys returns a mapping, and the sum of its values equals the sum of the values of
  the raw result.
\<close>

theorem reduce_counts_preserves_total:
  assumes "dict_ok counts"
  shows "\<exists>finalState. reduce_counts counts = Inr finalState \<and> dict_ok finalState \<and>
     sum_list (dict_values finalState) = sum_list (dict_values counts)"
proof -
  have "\<forall>key \<in> set (dict_keys counts). map_of counts key \<noteq> None"
    by (auto simp: dict_keys_def map_of_eq_None_iff)
  from reduce_loop_total [OF this, of "[]::counts"] obtain finalState where
    l: "reduce_loop counts (dict_keys counts) [] = Inr finalState" and
    t: "sum_list (dict_values finalState)
       = sum_list (dict_values ([]::counts)) + sum_list (map (\<lambda>key. the (map_of counts key)) (dict_keys counts))" and
    o: "dict_ok ([]::counts) \<longrightarrow> dict_ok finalState"
    by blast
  have "sum_list (map (\<lambda>key. the (map_of counts key)) (dict_keys counts)) = sum_list (dict_values counts)"
    using assms sum_lookups_distinct [of counts] by (simp add: dict_ok_def dict_keys_def dict_values_def)
  with l t o show ?thesis
    by (simp add: reduce_counts_def dict_values_def dict_ok_def)
qed

lemma reduce_counts_example:
  "reduce_counts [(''000000000'', 10), (''111111111'', 990)] = Inr [(''000'', 10), (''111'', 990)]"
  by (simp add: reduce_counts_def reduce_step_def dict_keys_def dict_contains_def
      dict_getitem_def last3_def)

theorem reduce_counts_witness:
  "dict_ok [(''0111'', 990), (''1111'', 6), (''0000'', 4 :: int)] \<and>
   reduce_counts [(''0111'', 990), (''1111'', 6), (''0000'', 4)] = Inr [(''111'', 996), (''000'', 4)] \<and>
   sum_list (dict_values [(''111'', 996), (''000'', 4 :: int)])
     = sum_list (dict_values [(''0111'', 990), (''1111'', 6), (''0000'', 4 :: int)])"
  using reduce_counts_preserves_total [of "[(''0111'', 990), (''1111'', 6), (''0000'', 4)]"]
  by (simp add: reduce_counts_def reduce_step_def dict_keys_def dict_contains_def
      dict_getitem_def last3_def dict_ok_def dict_values_def)

subsection \<open>The attack rounds\<close>

lemma reg_getitem_in_range: "0 \<le> k \<Longrightarrow> k < sz \<Longrightarrow> reg_getitem sz k = Inr k"
  by (simp add: reg_getitem_def)

lemma single_qubit_gates_in_range:
  "\<forall>k \<in> set ks. 0 \<le> k \<and> k < sz \<Longrightarrow>
   single_qubit_gates g sz ks = Inr (map (\<lambda>k. gate_on g [k]) ks)"
  by (induction ks) (simp_all add: reg_getitem_in_range)

lemma attack_round_in_range:
  "\<forall>k \<in> set ks. 0 \<le> k \<and> k + 1 < sz \<Longrightarrow>
   attack_round sz slots ks
     = Inr (concat (map (\<lambda>k. [gate_on CX [k, k + 1], gate_on (Delay slots) [k]]) ks))"
  by (induction ks) (simp_all add: reg_getitem_in_range)

lemma attack_round_spacing_in_range:
  "\<forall>k \<in> set ks. 0 \<le> k \<and> k + 2 < sz \<Longrightarrow>
   attack_round_spacing sz slots ks
     = Inr (concat (map (\<lambda>k. [gate_on CX [k + 1, k + 2], gate_on (Delay slots) [k + 1]]) ks))"
  by (induction ks) (simp_all add: reg_getitem_in_range)

lemma attack_rounds_Inr: "attack_rounds i (Inr r) = Inr (concat (replicate i r))"
  by (induction i) simp_all

lemma attack_rounds_0: "attack_rounds 0 one_round = Inr []"
  by simp

lemma py_range_set: "set (py_range start stop step) = {k. start \<le> k \<and> k < stop \<and> (k - start) mod step = 0}"
  by (auto simp: py_range_def)

lemma pairs_fit: "odd n \<Longrightarrow> k \<in> set (py_range 3 n 2) \<Longrightarrow> 0 \<le> k \<and> k + 1 < n"
  unfolding py_range_set by simp presburger

lemma pairs_fit_spacing:
  "3 \<le> n \<Longrightarrow> n \<noteq> 4 \<Longrightarrow> k \<in> set (py_range 3 n 3) \<Longrightarrow> 0 \<le> k \<and> k + 2 < n + (n - 3) div 2"
  unfolding py_range_set by simp presburger

lemma prepare_initial_state_ok:
  assumes "n \<le> sz"
  shows "prepare_initial_state st n sz =
     Inr (if st = 1 then map (\<lambda>k. gate_on X [k]) (py_range 3 n 2)
          else if st = 2 then map (\<lambda>k. gate_on H [k]) (py_range 3 n 2) else [])"
proof -
  have "\<forall>k \<in> set (py_range 3 n 2). 0 \<le> k \<and> k < sz"
    using assms by (auto simp: py_range_set)
  then show ?thesis
    by (simp add: prepare_initial_state_def single_qubit_gates_in_range)
qed

lemma circuit_prefix_ok:
  assumes "3 \<le> n" "n \<le> sz"
  shows "circuit_prefix n st grover sz =
     Inr ((if st = 1 then map (\<lambda>k. gate_on X [k]) (py_range 3 n 2)
           else if st = 2 then map (\<lambda>k. gate_on H [k]) (py_range 3 n 2) else [])
          @ [gate_on H [0], gate_on H [1], gate_on H [2],
             gate_on grover [0, 1, 2], gate_on grover [0, 1, 2]])"
  using assms
  by (simp add: circuit_prefix_def prepare_initial_state_ok append_grover_def reg_getitem_in_range)

lemma filter_concat_replicate:
  "filter P (concat (replicate i r)) = concat (replicate i (filter P r))"
  by (induction i) simp_all

lemma length_concat_replicate: "length (concat (replicate i r)) = i * length r"
  by (induction i) simp_all

lemma attack_ops_pattern:
  "filter (\<lambda>ins. is_CX (operation ins) \<or> is_Delay (operation ins))
     (concat (map (\<lambda>k. [gate_on CX (f k), gate_on (Delay s) (g k)]) ks))
   = concat (map (\<lambda>k. [gate_on CX (f k), gate_on (Delay s) (g k)]) ks)"
  by (induction ks) (simp_all add: gate_on_def)

lemma count_CX_pattern:
  "length (filter (\<lambda>ins. is_CX (operation ins))
     (concat (map (\<lambda>k. [gate_on CX (f k), gate_on (Delay s) (g k)]) ks))) = length ks"
  by (induction ks) (simp_all add: gate_on_def)

lemma count_Delay_pattern:
  "length (filter (\<lambda>ins. is_Delay (operation ins))
     (concat (map (\<lambda>k. [gate_on CX (f k), gate_on (Delay s) (g k)]) ks))) = length ks"
  by (induction ks) (simp_all add: gate_on_def)

lemma no_attack_ops_measure:
  "filter (\<lambda>ins. is_CX (operation ins) \<or> is_Delay (operation ins)) (measure_all sz) = []"
  "filter (\<lambda>ins. is_CX (operation ins)) (measure_all sz) = []"
  "filter (\<lambda>ins. is_Delay (operation ins)) (measure_all sz) = []"
  by (simp_all add: measure_all_def filter_empty_conv)

lemma no_attack_ops_prefix:
  assumes "circuit_prefix n st createGroverOperator sz = Inr pre" "3 \<le> n" "n \<le> sz"
  shows "filter (\<lambda>ins. is_CX (operation ins) \<or> is_Delay (operation ins)) pre = []"
    and "filter (\<lambda>ins. is_CX (operation ins)) pre = []"
    and "filter (\<lambda>ins. is_Delay (operation ins)) pre = []"
  using assms
  by (auto simp: circuit_prefix_ok filter_empty_conv gate_on_def createGroverOperator_def
      split: if_splits)

lemma build_attack_shape:
  assumes n: "3 \<le> n" and sz: "sz = (if spacing then n + (n - 3) div 2 else n)"
    and r: "(if spacing then attack_round_spacing sz (update_slots i slots) (py_range 3 n 3)
              else attack_round sz (update_slots i slots) (py_range 3 n 2)) = Inr pattern
            \<or> i = 0"
  shows "\<exists>pre. circuit_prefix n st createGroverOperator sz = Inr pre \<and>
     build_attack spacing n st createGroverOperator i slots
       = Inr (update_slots i slots,
              \<lparr>qreg_size = sz, creg_size = sz,
               data = pre @ concat (replicate i pattern) @ measure_all sz\<rparr>)"
proof -
  have le: "n \<le> sz" using n sz by (simp split: if_splits)
  obtain pre where pre: "circuit_prefix n st createGroverOperator sz = Inr pre"
    using circuit_prefix_ok [OF n le] by blast
  have reg: "new_register (if spacing then n + (n - 3) div 2 else n) = Inr sz"
    using n le sz by (simp add: new_register_def)
  have rounds: "attack_rounds i (if spacing then attack_round_spacing sz (update_slots i slots) (py_range 3 n 3)
              else attack_round sz (update_slots i slots) (py_range 3 n 2))
       = Inr (concat (replicate i pattern))"
    using r by (auto simp: attack_rounds_Inr)
  have "build_attack spacing n st createGroverOperator i slots
       = Inr (update_slots i slots,
              \<lparr>qreg_size = sz, creg_size = sz,
               data = pre @ concat (replicate i pattern) @ measure_all sz\<rparr>)"
    unfolding build_attack_def reg using pre rounds by (simp add: Let_def)
  with pre show ?thesis by blast
qed

lemma attack_round_spec_pattern:
  assumes "3 \<le> n" and "if spacing then n \<noteq> 4 else odd n"
  shows "(if spacing then attack_round_spacing (n + (n - 3) div 2) d (py_range 3 n 3)
          else attack_round n d (py_range 3 n 2)) = Inr (spec_attack_pattern spacing n d)"
proof (cases spacing)
  case True
  with assms have "\<forall>k \<in> set (py_range 3 n 3). 0 \<le> k \<and> k + 2 < n + (n - 3) div 2"
    using pairs_fit_spacing [of n] by simp
  from attack_round_spacing_in_range [OF this] show ?thesis
    using True by (simp add: spec_attack_pattern_def spec_pairs_def)
next
  case False
  with assms have "\<forall>k \<in> set (py_range 3 n 2). 0 \<le> k \<and> k + 1 < n"
    using pairs_fit [of n] by simp
  from attack_round_in_range [OF this] show ?thesis
    using False by (simp add: spec_attack_pattern_def spec_pairs_def)
qed

lemma spec_attack_pattern_ops:
  "filter (\<lambda>ins. is_CX (operation ins) \<or> is_Delay (operation ins)) (spec_attack_pattern spacing n d)
     = spec_attack_pattern spacing n d"
  "length (filter (\<lambda>ins. is_CX (operation ins)) (spec_attack_pattern spacing n d))
     = length (spec_pairs spacing n)"
  "length (filter (\<lambda>ins. is_Delay (operation ins)) (spec_attack_pattern spacing n d))
     = length (spec_pairs spacing n)"
  by (cases spacing; simp add: spec_attack_pattern_def attack_ops_pattern count_CX_pattern
        count_Delay_pattern)+

text \<open>
  Claim C8, as stated, fails: with four qubits the second circuit of the sweep cannot be
  built, in either mode, because the pair of \<open>k = 3\<close> reaches past the register.
\<close>

theorem attack_pattern_counterexample:
  "(3::int) \<le> 4 \<and> (1::nat) < 45 \<and>
   build_attack False 4 0 createGroverOperator 1 (slots_before 1) = Inl IndexError \<and>
   build_attack True 4 0 createGroverOperator 1 (slots_before 1) = Inl IndexError"
  by (simp add: build_attack_def new_register_def circuit_prefix_def prepare_initial_state_def
      append_grover_def reg_getitem_def py_range_def upto_rec1 Let_def)

text \<open>
  The same at the level of the method: on a four-qubit experiment
  \<open>addAttackWithoutMitigationCircuits\<close> appends the circuit of index 0 and then raises.
\<close>

lemma attack_method_four_qubits_raises:
  "fst (addAttackWithoutMitigationCircuits example_qiskit (example_experiment\<lparr>numQubits := 4\<rparr>))
     = Some IndexError \<and>
   length (circuits (snd (addAttackWithoutMitigationCircuits example_qiskit
     (example_experiment\<lparr>numQubits := 4\<rparr>)))) = 1"
proof -
  have idx: "[0..<45] = 0 # 1 # [2..<45]"
    by (simp add: upt_conv_Cons)
  show ?thesis
    unfolding addAttackWithoutMitigationCircuits_def idx
    by (simp add: attack_iteration_def build_attack_def new_register_def circuit_prefix_def
        prepare_initial_state_def append_grover_def reg_getitem_def py_range_def upto_rec1
        Let_def example_qiskit_def example_experiment_def measure_all_def)
qed

text \<open>
  Claim C8, amended. For \<open>numQubits \<ge> 3\<close> and a sweep index \<open>i\<close> in 0..44, and provided
  that \<open>numQubits\<close> is odd (without spacing) or different from 4 (with spacing), or that
  \<open>i = 0\<close>: the circuit of index \<open>i\<close> is built without an exception, with the delay value
  \<open>slots_at i\<close>; its instructions are the common prefix, then \<open>i\<close> repetitions of the
  attack pattern, then the measurements; its controlled-X and delay instructions are
  exactly those \<open>i\<close> repetitions, so it has \<open>i\<close> times the number of pairs of each.
\<close>

theorem attack_circuit_repeats_pattern:
  assumes "3 \<le> n" and "i < 45"
    and "(if spacing then n \<noteq> 4 else odd n) \<or> i = 0"
  shows "\<exists>pre qc.
     circuit_prefix n st createGroverOperator (if spacing then n + (n - 3) div 2 else n) = Inr pre \<and>
     build_attack spacing n st createGroverOperator i (slots_before i) = Inr (slots_at i, qc) \<and>
     qreg_size qc = (if spacing then n + (n - 3) div 2 else n) \<and>
     data qc = pre @ concat (replicate i (spec_attack_pattern spacing n (slots_at i)))
                 @ measure_all (qreg_size qc) \<and>
     attack_ops qc = concat (replicate i (spec_attack_pattern spacing n (slots_at i))) \<and>
     count_CX qc = i * length (spec_pairs spacing n) \<and>
     count_Delay qc = i * length (spec_pairs spacing n)"
proof -
  define sz where "sz = (if spacing then n + (n - 3) div 2 else n)"
  define pattern where "pattern = spec_attack_pattern spacing n (slots_at i)"
  have le: "n \<le> sz" using assms(1) by (simp add: sz_def)
  have r: "(if spacing then attack_round_spacing sz (update_slots i (slots_before i)) (py_range 3 n 3)
              else attack_round sz (update_slots i (slots_before i)) (py_range 3 n 2)) = Inr pattern
            \<or> i = 0"
  proof (cases "i = 0")
    case True
    then show ?thesis by simp
  next
    case False
    with assms(3) have "if spacing then n \<noteq> 4 else odd n" by simp
    from attack_round_spec_pattern [OF assms(1) this, of "slots_at i"]
    show ?thesis by (simp add: sz_def pattern_def slots_at_def split: if_splits)
  qed
  from build_attack_shape [OF assms(1) sz_def r, of st] obtain pre where
    pre: "circuit_prefix n st createGroverOperator sz = Inr pre" and
    b: "build_attack spacing n st createGroverOperator i (slots_before i)
       = Inr (slots_at i,
              \<lparr>qreg_size = sz, creg_size = sz,
               data = pre @ concat (replicate i pattern) @ measure_all sz\<rparr>)"
    by (auto simp: slots_at_def)
  define qc where "qc = \<lparr>qreg_size = sz, creg_size = sz,
               data = pre @ concat (replicate i pattern) @ measure_all sz\<rparr>"
  have ops: "attack_ops qc = concat (replicate i pattern)"
    by (simp add: attack_ops_def qc_def no_attack_ops_prefix [OF pre assms(1) le]
        no_attack_ops_measure filter_concat_replicate pattern_def spec_attack_pattern_ops)
  have cx: "count_CX qc = i * length (spec_pairs spacing n)"
    by (simp add: count_CX_def qc_def no_attack_ops_prefix [OF pre assms(1) le]
        no_attack_ops_measure filter_concat_replicate length_concat_replicate pattern_def
        spec_attack_pattern_ops)
  have dl: "count_Delay qc = i * length (spec_pairs spacing n)"
    by (simp add: count_Delay_def qc_def no_attack_ops_prefix [OF pre assms(1) le]
        no_attack_ops_measure filter_concat_replicate length_concat_replicate pattern_def
        spec_attack_pattern_ops)
  have "circuit_prefix n st createGroverOperator (if spacing then n + (n - 3) div 2 else n) = Inr pre \<and>
     build_attack spacing n st createGroverOperator i (slots_before i) = Inr (slots_at i, qc) \<and>
     qreg_size qc = (if spacing then n + (n - 3) div 2 else n) \<and>
     data qc = pre @ concat (replicate i (spec_attack_pattern spacing n (slots_at i)))
                 @ measure_all (qreg_size qc) \<and>
     attack_ops qc = concat (replicate i (spec_attack_pattern spacing n (slots_at i))) \<and>
     count_CX qc = i * length (spec_pairs spacing n) \<and>
     count_Delay qc = i * length (spec_pairs spacing n)"
    using pre b ops cx dl by (simp add: qc_def sz_def pattern_def)
  then show ?thesis by blast
qed

theorem attack_circuit_witness:
  "(3::int) \<le> 9 \<and> (2::nat) < 45 \<and> odd (9::int) \<and> (9::int) \<noteq> 4 \<and>
   (\<exists>qc. build_attack False 9 0 createGroverOperator 2 (slots_before 2) = Inr (4, qc) \<and>
      qreg_size qc = 9 \<and> count_CX qc = 6 \<and> count_Delay qc = 6) \<and>
   (\<exists>qc. build_attack True 9 0 createGroverOperator 2 (slots_before 2) = Inr (4, qc) \<and>
      qreg_size qc = 12 \<and> count_CX qc = 4 \<and> count_Delay qc = 4)"
proof -
  have pairs: "spec_pairs False 9 = [3, 5, 7]" "spec_pairs True 9 = [3, 6]"
    by (simp_all add: spec_pairs_def py_range_def upto_rec1)
  have s: "slots_at 2 = 4"
    by (simp add: slots_at_spec_schedule spec_schedule_def)
  show ?thesis
    using attack_circuit_repeats_pattern [of 9 2 False 0]
      attack_circuit_repeats_pattern [of 9 2 True 0] pairs s by auto
qed

subsection \<open>The sweep loop threads the parameter\<close>

lemma build_attack_slots:
  "build_attack spacing n st grover i slots = Inr (slots', qc) \<Longrightarrow> slots' = update_slots i slots"
  by (auto simp: build_attack_def bind_eq_Inr Let_def)

lemma attack_iteration_slots:
  "attack_iteration env self spacing dd i slots = Inr (slots', c) \<Longrightarrow> slots' = update_slots i slots"
  by (auto simp: attack_iteration_def bind_eq_Inr Let_def dest: build_attack_slots)

lemma attack_loop_threads_slots:
  "attack_loop env spacing dd [a..<a + n] (slots_before a) self = (None, self') \<Longrightarrow>
   \<exists>cs. self' = self\<lparr>circuits := circuits self @ cs\<rparr> \<and> length cs = n \<and>
     (\<forall>j < n. attack_iteration env self spacing dd (a + j) (slots_before (a + j))
                 = Inr (slots_at (a + j), cs ! j))"
proof (induction n arbitrary: a self)
  case 0
  then show ?case by simp
next
  case (Suc n)
  have upt: "[a..<a + Suc n] = a # [Suc a..<Suc a + n]"
    by (simp add: upt_conv_Cons)
  from Suc.prems obtain r where r: "attack_iteration env self spacing dd a (slots_before a) = Inr r"
    unfolding upt by (cases "attack_iteration env self spacing dd a (slots_before a)") simp_all
  obtain slots' c where rc: "r = (slots', c)" by (cases r)
  from r rc have s': "slots' = slots_at a"
    using attack_iteration_slots [of env self spacing dd a "slots_before a" slots' c]
    by (simp add: slots_at_def)
  have it: "attack_iteration env self spacing dd a (slots_before a) = Inr (slots_at a, c)"
    using r rc s' by simp
  have "attack_loop env spacing dd [Suc a..<Suc a + n] (slots_before (Suc a))
          (self\<lparr>circuits := circuits self @ [c]\<rparr>) = (None, self')"
    using Suc.prems it unfolding upt by (simp add: slots_at_def)
  from Suc.IH [OF this] obtain cs where
    e: "self' = self\<lparr>circuits := circuits self @ c # cs\<rparr>" and l: "length cs = n" and
    a: "\<forall>j < n. attack_iteration env (self\<lparr>circuits := circuits self @ [c]\<rparr>) spacing dd (Suc a + j)
                    (slots_before (Suc a + j)) = Inr (slots_at (Suc a + j), cs ! j)"
    by auto
  have "\<forall>j < Suc n. attack_iteration env self spacing dd (a + j) (slots_before (a + j))
                 = Inr (slots_at (a + j), (c # cs) ! j)"
  proof (intro allI impI)
    fix j assume j: "j < Suc n"
    show "attack_iteration env self spacing dd (a + j) (slots_before (a + j))
                 = Inr (slots_at (a + j), (c # cs) ! j)"
    proof (cases j)
      case 0
      then show ?thesis using it by simp
    next
      case (Suc j')
      with j a have "attack_iteration env (self\<lparr>circuits := circuits self @ [c]\<rparr>) spacing dd (Suc a + j')
                    (slots_before (Suc a + j')) = Inr (slots_at (Suc a + j'), cs ! j')"
        by simp
      then show ?thesis using Suc by (simp add: attack_iteration_config)
    qed
  qed
  with e l show ?case by (intro exI [of _ "c # cs"]) simp
qed

text \<open>
  An attack method that returns has appended 45 circuits, and the circuit at sweep index
  \<open>i\<close> is what iteration \<open>i\<close> produces when it is entered with \<open>slots_before i\<close>; the
  delays of that iteration carry \<open>slots_at i\<close>.
\<close>

lemma attack_method_iterations:
  assumes "attack_loop env spacing dd [0..<45] 8 self = (None, self')"
  shows "\<exists>cs. self' = self\<lparr>circuits := circuits self @ cs\<rparr> \<and> length cs = 45 \<and>
     (\<forall>i < 45. attack_iteration env self spacing dd i (slots_before i) = Inr (slots_at i, cs ! i))"
  using attack_loop_threads_slots [of env spacing dd 0 45 self self'] assms by simp

subsection \<open>The score of the specification\<close>

lemma total_count_pos:
  assumes "valid_distribution d"
  shows "0 < total_count d"
proof -
  have "d \<noteq> [] \<Longrightarrow> list_all (\<lambda>(k, c). 0 < c) d \<Longrightarrow> 0 < sum_list (map snd d)" for d :: counts
  proof (induction d)
    case Nil
    then show ?case by simp
  next
    case (Cons kv d)
    then show ?case by (cases d) (auto simp: case_prod_unfold)
  qed
  with assms show ?thesis
    by (simp add: valid_distribution_def total_count_def dict_values_def)
qed

lemma probability_nonneg:
  assumes "valid_distribution d"
  shows "0 \<le> probability d k"
proof (cases "map_of d k")
  case None
  then show ?thesis by (simp add: probability_def)
next
  case (Some c)
  then have "(k, c) \<in> set d" by (rule map_of_SomeD)
  with assms have "0 < c"
    by (auto simp: valid_distribution_def list_all_iff)
  with Some total_count_pos [OF assms] show ?thesis
    by (simp add: probability_def)
qed

lemma probability_missing: "k \<notin> set (dict_keys d) \<Longrightarrow> probability d k = 0"
  by (simp add: probability_def dict_keys_def map_of_eq_None_iff [THEN iffD2])

lemma sum_list_divide:
  fixes f :: "'a \<Rightarrow> real"
  shows "sum_list (map (\<lambda>x. f x / t) xs) = sum_list (map f xs) / t"
  by (induction xs) (simp_all add: add_divide_distrib)

lemma real_sum_list: "real_of_int (sum_list xs) = sum_list (map real_of_int xs)"
  by (induction xs) simp_all

lemma probabilities_sum_to_one:
  assumes "valid_distribution d"
  shows "(\<Sum>k \<in> set (dict_keys d). probability d k) = 1"
proof -
  have dist: "distinct (map fst d)"
    using assms by (simp add: valid_distribution_def dict_ok_def)
  have "(\<Sum>k \<in> set (dict_keys d). probability d k)
      = sum_list (map (probability d) (map fst d))"
    using sum.distinct_set_conv_list [OF dist, of "probability d"] by (simp add: dict_keys_def)
  also have "map (probability d) (map fst d)
      = map (\<lambda>kv. real_of_int (snd kv) / real_of_int (total_count d)) d"
  proof -
    have "probability d (fst kv) = real_of_int (snd kv) / real_of_int (total_count d)"
      if "kv \<in> set d" for kv
    proof -
      from that have "(fst kv, snd kv) \<in> set d" by simp
      with dist have "map_of d (fst kv) = Some (snd kv)"
        by (rule map_of_is_SomeI)
      then show ?thesis by (simp add: probability_def)
    qed
    then show ?thesis by simp
  qed
  also have "sum_list (map (\<lambda>kv. real_of_int (snd kv) / real_of_int (total_count d)) d)
      = real_of_int (total_count d) / real_of_int (total_count d)"
    by (simp add: sum_list_divide total_count_def dict_values_def real_sum_list comp_def)
  also have "\<dots> = 1"
    using total_count_pos [OF assms] by simp
  finally show ?thesis .
qed

lemma score_same: "score d d = 1"
  by (simp add: score_def hellinger_distance_def)

lemma score_commute: "score p q = score q p"
  by (simp add: score_def hellinger_distance_def Un_commute power2_commute [of "sqrt (probability p _)"])

lemma score_disjoint:
  assumes p: "valid_distribution p" and q: "valid_distribution q"
    and disj: "set (dict_keys p) \<inter> set (dict_keys q) = {}"
  shows "score p q = 0"
proof -
  have "(\<Sum>k \<in> set (dict_keys p) \<union> set (dict_keys q).
             (sqrt (probability p k) - sqrt (probability q k))\<^sup>2)
      = (\<Sum>k \<in> set (dict_keys p). (sqrt (probability p k) - sqrt (probability q k))\<^sup>2)
        + (\<Sum>k \<in> set (dict_keys q). (sqrt (probability p k) - sqrt (probability q k))\<^sup>2)"
    using disj by (simp add: sum.union_disjoint)
  also have "(\<Sum>k \<in> set (dict_keys p). (sqrt (probability p k) - sqrt (probability q k))\<^sup>2)
      = (\<Sum>k \<in> set (dict_keys p). probability p k)"
  proof (rule sum.cong)
    fix k assume "k \<in> set (dict_keys p)"
    with disj have "k \<notin> set (dict_keys q)" by blast
    then have "probability q k = 0" by (rule probability_missing)
    then show "(sqrt (probability p k) - sqrt (probability q k))\<^sup>2 = probability p k"
      using probability_nonneg [OF p, of k] by simp
  qed simp
  also have "(\<Sum>k \<in> set (dict_keys q). (sqrt (probability p k) - sqrt (probability q k))\<^sup>2)
      = (\<Sum>k \<in> set (dict_keys q). probability q k)"
  proof (rule sum.cong)
    fix k assume "k \<in> set (dict_keys q)"
    with disj have "k \<notin> set (dict_keys p)" by blast
    then have "probability p k = 0" by (rule probability_missing)
    then show "(sqrt (probability p k) - sqrt (probability q k))\<^sup>2 = probability q k"
      using probability_nonneg [OF q, of k] by simp
  qed simp
  finally have "(\<Sum>k \<in> set (dict_keys p) \<union> set (dict_keys q).
             (sqrt (probability p k) - sqrt (probability q k))\<^sup>2) = 2"
    using probabilities_sum_to_one [OF p] probabilities_sum_to_one [OF q] by simp
  then show ?thesis
    by (simp add: score_def hellinger_distance_def)
qed

text \<open>
  The three facts are facts about the distance, so they hold for every score that is a
  function of the distance taking 0 to 1 and 1 to 0.
\<close>

lemma hellinger_distance_props:
  "hellinger_distance d d = 0"
  "hellinger_distance p q = hellinger_distance q p"
  "valid_distribution p \<Longrightarrow> valid_distribution q \<Longrightarrow>
     set (dict_keys p) \<inter> set (dict_keys q) = {} \<Longrightarrow> hellinger_distance p q = 1"
  using score_same [of d] score_commute [of p q] score_disjoint [of p q]
  by (simp_all add: score_def)

text \<open>
  Claim C3. For the score as the specification describes it: the score of a valid
  distribution with itself is 1; the score of two valid distributions with disjoint key
  sets is 0; and the score of two valid distributions does not depend on their order.
\<close>

theorem score_identical_disjoint_symmetric:
  "(valid_distribution d \<longrightarrow> score d d = 1) \<and>
   (valid_distribution d1 \<and> valid_distribution d2 \<and>
      set (dict_keys d1) \<inter> set (dict_keys d2) = {} \<longrightarrow> score d1 d2 = 0) \<and>
   (valid_distribution d1 \<and> valid_distribution d2 \<longrightarrow> score d1 d2 = score d2 d1)"
  using score_same [of d] score_disjoint [of d1 d2] score_commute [of d1 d2] by blast

theorem score_witness:
  "valid_distribution idealState \<and>
   valid_distribution [(''111'', 990), (''000'', 10)] \<and>
   valid_distribution [(''101'', 7)] \<and>
   set (dict_keys [(''111'', 990 :: int), (''000'', 10)]) \<inter> set (dict_keys [(''101'', 7 :: int)]) = {} \<and>
   score idealState idealState = 1 \<and>
   score [(''111'', 990), (''000'', 10)] [(''101'', 7)] = 0 \<and>
   score [(''111'', 990), (''000'', 10)] [(''101'', 7)] = score [(''101'', 7)] [(''111'', 990), (''000'', 10)]"
proof -
  have v: "valid_distribution idealState" "valid_distribution [(''111'', 990), (''000'', 10)]"
    "valid_distribution [(''101'', 7)]"
    by (simp_all add: valid_distribution_def dict_ok_def idealState_def)
  have k: "set (dict_keys [(''111'', 990 :: int), (''000'', 10)]) \<inter> set (dict_keys [(''101'', 7 :: int)]) = {}"
    by (simp add: dict_keys_def)
  show ?thesis
    using v k score_identical_disjoint_symmetric
      [of idealState "[(''111'', 990), (''000'', 10)]" "[(''101'', 7)]"]
    by simp
qed

end
